theory Spec2Isabelle
  imports Main "HOL-Library.Word"
begin

section \<open>Data of package backup (auto/backup/uploader.go)\<close>

text \<open>
  Bytes are 8-bit words, a file name is a string, Go's \<open>int64\<close> is a 64-bit word whose
  addition wraps (read as a signed number by \<open>sint\<close>). Go's \<open>int\<close>, the result of a
  \<open>Read\<close>, is kept as a mathematical integer and converted by \<open>int64(n)\<close>, which is
  \<open>word_of_int\<close>. Instants and durations are integers (nanoseconds).
\<close>

type_synonym byte = "8 word"
type_synonym path = string
type_synonym int64 = "64 word"
type_synonym Time = int
type_synonym Duration = int

text \<open>Go \<open>error\<close> values. \<open>None\<close> of \<open>error option\<close> is Go's \<open>nil\<close> error.\<close>

datatype error = EOF | ErrNotExist | ErrExist | IOError string

text \<open>
  \<open>type SHA256Sum []byte\<close>: \<open>None\<close> is the \<open>nil\<close> value that
  \<open>Start\<close> assigns to \<open>lastSum\<close> and that a new \<open>Uploader\<close> holds.
\<close>

type_synonym SHA256Sum = "byte list option"

subsection \<open>The expvar map \<open>stats\<close>\<close>

text \<open>
  \<open>ResetStats\<close>, called from \<open>init\<close>, creates exactly five \<open>expvar.Int\<close> entries
  and nothing removes one, so the map is a total function on the five keys.
  \<open>expvar.Int\<close> holds an \<open>int64\<close>; \<open>Add\<close> is an atomic wrapping addition.
\<close>

datatype key = numUploadsOK | numUploadsFail | numUploadsSkipped | totalUploadBytes | lastUploadBytes

type_synonym expvar_Map = "key \<Rightarrow> int64"

definition stats_Add :: "key \<Rightarrow> int64 \<Rightarrow> expvar_Map \<Rightarrow> expvar_Map" where
  "stats_Add k delta m = m(k := m k + delta)"

definition stats_Set :: "key \<Rightarrow> int64 \<Rightarrow> expvar_Map \<Rightarrow> expvar_Map" where
  "stats_Set k v m = m(k := v)"

definition ResetStats :: "expvar_Map \<Rightarrow> expvar_Map" where
  "ResetStats m =
     stats_Add lastUploadBytes 0 (stats_Add totalUploadBytes 0 (stats_Add numUploadsSkipped 0
       (stats_Add numUploadsFail 0 (stats_Add numUploadsOK 0 (\<lambda>k. 0)))))"

subsection \<open>Readers and the counting reader\<close>

text \<open>
  \<open>Read(p []byte) (n int, err error)\<close> is given the buffer \<open>p\<close> and answers with the
  buffer as the call left it, \<open>n\<close> and \<open>err\<close>. An \<open>io.Reader\<close> is an interface value:
  a method together with the private state \<open>self\<close> it works on. Nothing is assumed of
  the method: it may return any \<open>n\<close>, also one outside \<open>0..len(p)\<close>.
\<close>

type_synonym read_result = "byte list \<times> int \<times> error option"

record 's io_Reader =
  Read :: "byte list \<Rightarrow> 's \<Rightarrow> read_result \<times> 's"
  self :: 's

definition call_Read :: "'s io_Reader \<Rightarrow> byte list \<Rightarrow> read_result \<times> 's io_Reader" where
  "call_Read r p = (let (res, s') = Read r p (self r) in (res, r\<lparr>self := s'\<rparr>))"

record 's countingReader =
  reader :: "'s io_Reader"
  count :: int64

text \<open>
  \<open>func (c *countingReader) Read(p []byte) (int, error)\<close>:
  \<open>n, err := c.reader.Read(p); c.count += int64(n); return n, err\<close>.
\<close>

definition countingReader_Read ::
    "'s countingReader \<Rightarrow> byte list \<Rightarrow> read_result \<times> 's countingReader" where
  "countingReader_Read c p =
     (let ((p', n, err), r') = call_Read (reader c) p
      in ((p', n, err), c\<lparr>reader := r', count := count c + word_of_int n\<rparr>))"

text \<open>A sequence of \<open>Read\<close> calls, one per buffer of the list, on a reader and on the wrapper.\<close>

fun reads :: "'s io_Reader \<Rightarrow> byte list list \<Rightarrow> read_result list \<times> 's io_Reader" where
  "reads r [] = ([], r)"
| "reads r (p # ps) =
     (let (res, r') = call_Read r p; (rs, r'') = reads r' ps in (res # rs, r''))"

fun counting_reads ::
    "'s countingReader \<Rightarrow> byte list list \<Rightarrow> read_result list \<times> 's countingReader" where
  "counting_reads c [] = ([], c)"
| "counting_reads c (p # ps) =
     (let (res, c') = countingReader_Read c p; (rs, c'') = counting_reads c' ps
      in (res # rs, c''))"

definition bytes_returned :: "read_result list \<Rightarrow> int" where
  "bytes_returned rs = sum_list (map (\<lambda>(p, n, err). n) rs)"

subsection \<open>The file system, the storage service and the outside world\<close>

text \<open>
  The state the package works on: the files (name to content), the process-wide
  \<open>stats\<close> map, and the history of the storage service, one entry for every call of
  \<open>StorageClient.Upload\<close> holding the bytes that call read from its stream and the
  error it returned. \<open>calls\<close> counts the answers the outside has given so far
  (operating system, clock, provider, storage client, enablement function): what the
  outside answers may depend on it, so the same call can be answered differently at
  different moments.
\<close>

record world =
  files :: "path \<rightharpoonup> byte list"
  stats :: expvar_Map
  sent :: "(byte list \<times> error option) list"
  calls :: nat

text \<open>
  The platform. \<open>os_fault n\<close> is the error, if any, with which the operating system
  answers a fallible call made as interaction \<open>n\<close>; \<open>os_tempname n\<close> the name
  \<open>os.CreateTemp\<close> draws; \<open>os_partial n\<close> the bytes of a compressed stream that have
  reached the file when a write through the \<open>gzip.Writer\<close> returns before the stream
  is complete; \<open>clock n\<close> the reading of \<open>time.Now()\<close>. \<open>gzip\<close> is the compressed
  form of a byte sequence (package compress/gzip).
\<close>

record env =
  os_fault :: "nat \<Rightarrow> error option"
  os_tempname :: "nat \<Rightarrow> path"
  os_partial :: "nat \<Rightarrow> byte list"
  clock :: "nat \<Rightarrow> Time"
  gzip :: "byte list \<Rightarrow> byte list"
  sha256 :: "byte list \<Rightarrow> byte list"

text \<open>
  What an implementation of \<open>StorageClient.Upload(ctx, reader)\<close> does with the stream
  it is handed: it returns, or it calls \<open>Read\<close> with a buffer and goes on according to
  the answer. It can reach the reader through \<open>Read\<close> only.
\<close>

datatype client = Return "error option" | CallRead "byte list" "read_result \<Rightarrow> client"

text \<open>
  \<open>type Uploader struct\<close>. The two interface values are kept as what they do at
  interaction \<open>n\<close>: \<open>dataProvider n path\<close> changes the files and returns an error or
  \<open>nil\<close>. The logger is left out: it writes to standard error only.
\<close>

record Uploader =
  storageClient :: "nat \<Rightarrow> client"
  dataProvider :: "nat \<Rightarrow> path \<Rightarrow> (path \<rightharpoonup> byte list) \<Rightarrow> error option \<times> (path \<rightharpoonup> byte list)"
  interval :: Duration
  compress :: bool
  lastUploadTime :: Time
  lastUploadDuration :: Duration
  lastSum :: SHA256Sum
  disableSumCheck :: bool

definition NewUploader ::
    "(nat \<Rightarrow> client) \<Rightarrow>
     (nat \<Rightarrow> path \<Rightarrow> (path \<rightharpoonup> byte list) \<Rightarrow> error option \<times> (path \<rightharpoonup> byte list)) \<Rightarrow>
     Duration \<Rightarrow> bool \<Rightarrow> Uploader" where
  "NewUploader sc dp iv c =
     \<lparr>storageClient = sc, dataProvider = dp, interval = iv, compress = c,
      lastUploadTime = 0, lastUploadDuration = 0, lastSum = None, disableSumCheck = False\<rparr>"

section \<open>Operating system calls\<close>

definition answered :: "world \<Rightarrow> world" where
  "answered w = w\<lparr>calls := calls w + 1\<rparr>"

text \<open>
  \<open>os.CreateTemp("", "rqlite-upload")\<close> creates a new, empty file under a name no file
  has (it opens with \<open>O_EXCL\<close>), or fails. A drawn name that is taken counts as a
  failure.
\<close>

definition os_CreateTemp :: "env \<Rightarrow> world \<Rightarrow> (error + path) \<times> world" where
  "os_CreateTemp e w =
     (case os_fault e (calls w) of
        Some err \<Rightarrow> (Inl err, answered w)
      | None \<Rightarrow>
          (let name = os_tempname e (calls w) in
           if files w name \<noteq> None then (Inl ErrExist, answered w)
           else (Inr name, answered (w\<lparr>files := (files w)(name \<mapsto> [])\<rparr>))))"

text \<open>
  An open file is named by the path it was opened by: between an \<open>os.Open\<close> and the
  last read of the descriptor the package neither renames nor removes a file.
\<close>

type_synonym File = path

definition os_Open :: "env \<Rightarrow> path \<Rightarrow> world \<Rightarrow> (error + File) \<times> world" where
  "os_Open e name w =
     (case os_fault e (calls w) of
        Some err \<Rightarrow> (Inl err, answered w)
      | None \<Rightarrow>
          (if files w name = None then (Inl ErrNotExist, answered w)
           else (Inr name, answered w)))"

text \<open>\<open>os.Create\<close> truncates the file if it exists and creates it otherwise.\<close>

definition os_Create :: "env \<Rightarrow> path \<Rightarrow> world \<Rightarrow> (error + File) \<times> world" where
  "os_Create e name w =
     (case os_fault e (calls w) of
        Some err \<Rightarrow> (Inl err, answered w)
      | None \<Rightarrow> (Inr name, answered (w\<lparr>files := (files w)(name \<mapsto> [])\<rparr>)))"

definition os_Rename :: "env \<Rightarrow> path \<Rightarrow> path \<Rightarrow> world \<Rightarrow> error option \<times> world" where
  "os_Rename e oldpath newpath w =
     (case os_fault e (calls w) of
        Some err \<Rightarrow> (Some err, answered w)
      | None \<Rightarrow>
          (case files w oldpath of
             None \<Rightarrow> (Some ErrNotExist, answered w)
           | Some bs \<Rightarrow>
               (None, answered (w\<lparr>files := ((files w)(oldpath := None))(newpath \<mapsto> bs)\<rparr>))))"

text \<open>
  \<open>os.Remove\<close> fails like any other call, and fails on a name that no file has; a
  failed removal leaves the files as they are. Both call sites are
  \<open>defer os.Remove(name)\<close>: the call runs when the function returns and its error
  is dropped.
\<close>

definition os_Remove :: "env \<Rightarrow> path \<Rightarrow> world \<Rightarrow> error option \<times> world" where
  "os_Remove e name w =
     (case os_fault e (calls w) of
        Some err \<Rightarrow> (Some err, answered w)
      | None \<Rightarrow>
          (if files w name = None then (Some ErrNotExist, answered w)
           else (None, answered (w\<lparr>files := (files w)(name := None)\<rparr>))))"

definition defer_os_Remove :: "env \<Rightarrow> path \<Rightarrow> world \<Rightarrow> world" where
  "defer_os_Remove e name w = snd (os_Remove e name w)"

definition time_Now :: "env \<Rightarrow> world \<Rightarrow> Time \<times> world" where
  "time_Now e w = (clock e (calls w), answered w)"

definition File_content :: "world \<Rightarrow> File \<Rightarrow> byte list" where
  "File_content w fd = (case files w fd of None \<Rightarrow> [] | Some bs \<Rightarrow> bs)"

text \<open>
  \<open>(*os.File).Read\<close> on a regular file: the next \<open>min(len(p), remaining)\<close> bytes go
  to the front of \<open>p\<close>; at the end of the file the answer is \<open>0, io.EOF\<close>; an empty
  buffer is answered \<open>0, nil\<close>. The state is the content and the offset.
\<close>

definition File_Read :: "byte list \<Rightarrow> byte list \<times> nat \<Rightarrow> read_result \<times> (byte list \<times> nat)" where
  "File_Read p s =
     (let (data, off) = s in
      if p = [] then ((p, 0, None), (data, off))
      else if length data \<le> off then ((p, 0, Some EOF), (data, off))
      else (let chunk = take (length p) (drop off data)
            in ((chunk @ drop (length chunk) p, int (length chunk), None),
                (data, off + length chunk))))"

definition File_reader :: "world \<Rightarrow> File \<Rightarrow> (byte list \<times> nat) io_Reader" where
  "File_reader w fd = \<lparr>Read = File_Read, self = (File_content w fd, 0)\<rparr>"

section \<open>Functions of uploader.go\<close>

text \<open>\<open>func tempFilename() (string, error)\<close>\<close>

definition tempFilename :: "env \<Rightarrow> world \<Rightarrow> (error + path) \<times> world" where
  "tempFilename e w =
     (case os_CreateTemp e w of
        (Inl err, w1) \<Rightarrow> (Inl err, w1)
      | (Inr f, w1) \<Rightarrow> (Inr f, w1))"

text \<open>
  \<open>gw := gzip.NewWriter(compressedFd)\<close> is a writer that remembers what has been
  written into it. \<open>io.Copy(gw, uncompressedFd)\<close> reads the source file as it is now
  and writes it into the compressor; when it returns, with or without an error, some
  part of the compressed stream has reached the destination file. \<open>gw.Close()\<close>
  writes the rest: after a successful \<open>Close\<close> the destination holds the compressed
  form of everything written into \<open>gw\<close>.
\<close>

record gzip_Writer =
  dst :: File
  taken :: "byte list"

definition gzip_NewWriter :: "File \<Rightarrow> gzip_Writer" where
  "gzip_NewWriter fd = \<lparr>dst = fd, taken = []\<rparr>"

definition io_Copy ::
    "env \<Rightarrow> gzip_Writer \<Rightarrow> File \<Rightarrow> world \<Rightarrow> (error option \<times> gzip_Writer) \<times> world" where
  "io_Copy e gw src w =
     ((os_fault e (calls w), gw\<lparr>taken := taken gw @ File_content w src\<rparr>),
      answered (w\<lparr>files := (files w)(dst gw \<mapsto> os_partial e (calls w))\<rparr>))"

definition gw_Close :: "env \<Rightarrow> gzip_Writer \<Rightarrow> world \<Rightarrow> error option \<times> world" where
  "gw_Close e gw w =
     (case os_fault e (calls w) of
        Some err \<Rightarrow>
          (Some err, answered (w\<lparr>files := (files w)(dst gw \<mapsto> os_partial e (calls w))\<rparr>))
      | None \<Rightarrow>
          (None, answered (w\<lparr>files := (files w)(dst gw \<mapsto> gzip e (taken gw))\<rparr>)))"

text \<open>\<open>func compressFromTo(from, to string) error\<close>\<close>

definition compressFromTo :: "env \<Rightarrow> path \<Rightarrow> path \<Rightarrow> world \<Rightarrow> error option \<times> world" where
  "compressFromTo e from to w =
     (case os_Open e from w of
        (Inl err, w1) \<Rightarrow> (Some err, w1)
      | (Inr uncompressedFd, w1) \<Rightarrow>
     (case os_Create e to w1 of
        (Inl err, w2) \<Rightarrow> (Some err, w2)
      | (Inr compressedFd, w2) \<Rightarrow>
     (case io_Copy e (gzip_NewWriter compressedFd) uncompressedFd w2 of
        ((Some err, gw), w3) \<Rightarrow> (Some err, w3)
      | ((None, gw), w3) \<Rightarrow>
     (case gw_Close e gw w3 of
        (Some err, w4) \<Rightarrow> (Some err, w4)
      | (None, w4) \<Rightarrow> (None, w4)))))"

text \<open>
  \<open>func (u *Uploader) compressIfNeeded(path string) error\<close>. The deferred
  \<open>os.Remove(compressedFile)\<close> runs on every return after it is registered; after a
  successful rename it finds no file of that name.
\<close>

definition compressIfNeeded :: "env \<Rightarrow> Uploader \<Rightarrow> path \<Rightarrow> world \<Rightarrow> error option \<times> world" where
  "compressIfNeeded e u path w =
     (if \<not> compress u then (None, w)
      else
        (case tempFilename e w of
           (Inl err, w1) \<Rightarrow> (Some err, w1)
         | (Inr compressedFile, w1) \<Rightarrow>
             (let (r, w3) =
                    (case compressFromTo e path compressedFile w1 of
                       (Some err, w2) \<Rightarrow> (Some err, w2)
                     | (None, w2) \<Rightarrow> os_Rename e compressedFile path w2)
              in (r, defer_os_Remove e compressedFile w3))))"

text \<open>
  Modelled from the spec: \<open>FileSHA256\<close> and the methods of \<open>SHA256Sum\<close> are declared in
  a file of the package that is not among the sources. The spec (4.1, 3): the digest is
  deterministic in the file's byte content and computing it has no side effect; it
  fails with an I/O error if the path cannot be read; two digests compare equal iff
  their bytes are identical, and the "no digest" value is distinguishable from any real
  digest. \<open>sha256\<close> of the platform is the hash function.
\<close>

definition FileSHA256 :: "env \<Rightarrow> path \<Rightarrow> world \<Rightarrow> (error + SHA256Sum) \<times> world" where
  "FileSHA256 e filePath w =
     (case os_fault e (calls w) of
        Some err \<Rightarrow> (Inl err, answered w)
      | None \<Rightarrow>
          (case files w filePath of
             None \<Rightarrow> (Inl ErrNotExist, answered w)
           | Some bs \<Rightarrow> (Inr (Some (sha256 e bs)), answered w)))"

definition Equals :: "SHA256Sum \<Rightarrow> SHA256Sum \<Rightarrow> bool" where
  "Equals s other = (s = other)"

text \<open>\<open>u.dataProvider.Provide(path)\<close>\<close>

definition Provide :: "Uploader \<Rightarrow> path \<Rightarrow> world \<Rightarrow> error option \<times> world" where
  "Provide u path w =
     (let (err, fs) = dataProvider u (calls w) path (files w)
      in (err, answered (w\<lparr>files := fs\<rparr>)))"

text \<open>
  \<open>u.storageClient.Upload(ctx, cr)\<close>: the client runs against the counting reader;
  the service's history gets the bytes the calls of \<open>Read\<close> delivered (\<open>p[:n]\<close> of
  each) and the error returned. The context is left out: a cancelled context shows as
  one more way for the client to return an error.
\<close>

primrec run_client ::
    "client \<Rightarrow> 's countingReader \<Rightarrow> byte list \<Rightarrow> error option \<times> 's countingReader \<times> byte list" where
  "run_client (Return err) = (\<lambda>cr got. (err, cr, got))"
| "run_client (CallRead p k) =
     (\<lambda>cr got. (let ((p', n, rerr), cr') = countingReader_Read cr p
                in run_client (k (p', n, rerr)) cr' (got @ take (nat n) p')))"

definition Upload ::
    "Uploader \<Rightarrow> 's countingReader \<Rightarrow> world \<Rightarrow> (error option \<times> 's countingReader) \<times> world" where
  "Upload u cr w =
     (let (err, cr', got) = run_client (storageClient u (calls w)) cr []
      in ((err, cr'), answered (w\<lparr>sent := sent w @ [(got, err)]\<rparr>)))"

text \<open>
  \<open>func (u *Uploader) upload(ctx context.Context) error\<close>, in two parts: what runs
  after \<open>defer os.Remove(filetoUpload)\<close> is registered, and the function itself, which
  runs the deferred removal on every return of that part. (\<open>defer fd.Close()\<close> runs
  before the removal and changes nothing in this state.)
\<close>

definition upload_deferred :: "env \<Rightarrow> Uploader \<Rightarrow> path \<Rightarrow> world \<Rightarrow> error option \<times> Uploader \<times> world" where
  "upload_deferred e u filetoUpload w =
     (case Provide u filetoUpload w of
        (Some err, w1) \<Rightarrow> (Some err, u, w1)
      | (None, w1) \<Rightarrow>
     (case compressIfNeeded e u filetoUpload w1 of
        (Some err, w2) \<Rightarrow> (Some err, u, w2)
      | (None, w2) \<Rightarrow>
     (case FileSHA256 e filetoUpload w2 of
        (Inl err, w3) \<Rightarrow> (Some err, u, w3)
      | (Inr sm, w3) \<Rightarrow>
          if \<not> disableSumCheck u \<and> Equals sm (lastSum u) then
            (None, u, w3\<lparr>stats := stats_Add numUploadsSkipped 1 (stats w3)\<rparr>)
          else
     (case os_Open e filetoUpload w3 of
        (Inl err, w4) \<Rightarrow> (Some err, u, w4)
      | (Inr fd, w4) \<Rightarrow>
          (let cr = \<lparr>reader = File_reader w4 fd, count = 0\<rparr>;
               (startTime, w5) = time_Now e w4;
               ((err, cr'), w6) = Upload u cr w5
           in (case err of
                 Some x \<Rightarrow> (err, u, w6\<lparr>stats := stats_Add numUploadsFail 1 (stats w6)\<rparr>)
               | None \<Rightarrow>
                   (let w7 = w6\<lparr>stats :=
                               stats_Set lastUploadBytes (count cr')
                                 (stats_Add totalUploadBytes (count cr')
                                   (stats_Add numUploadsOK 1 (stats w6)))\<rparr>;
                        (t1, w8) = time_Now e w7;
                        (t2, w9) = time_Now e w8
                    in (None,
                        u\<lparr>lastSum := sm, lastUploadTime := t1,
                          lastUploadDuration := t2 - startTime\<rparr>,
                        w9))))))))"

definition upload :: "env \<Rightarrow> Uploader \<Rightarrow> world \<Rightarrow> error option \<times> Uploader \<times> world" where
  "upload e u w =
     (case tempFilename e w of
        (Inl err, w1) \<Rightarrow> (Some err, u, w1)
      | (Inr filetoUpload, w1) \<Rightarrow>
          (let (r, u', w2) = upload_deferred e u filetoUpload w1
           in (r, u', defer_os_Remove e filetoUpload w2)))"





section \<open>Runs of several cycles and their accounting\<close>

text \<open>\<open>n\<close> consecutive calls of \<open>upload\<close>, each on the state the one before left.\<close>

fun cycles :: "env \<Rightarrow> nat \<Rightarrow> Uploader \<Rightarrow> world \<Rightarrow> Uploader \<times> world" where
  "cycles e 0 u w = (u, w)"
| "cycles e (Suc n) u w = (let (r, u', w') = upload e u w in cycles e n u' w')"

text \<open>
  The entries the storage history gained from one world to a later one, and the byte
  counts \<open>b1, ..., bN\<close> of the successful uploads among some entries: the number of
  bytes each of them read from its stream.
\<close>

definition new_uploads :: "world \<Rightarrow> world \<Rightarrow> (byte list \<times> error option) list" where
  "new_uploads w w' = drop (length (sent w)) (sent w')"

definition uploaded_sizes :: "(byte list \<times> error option) list \<Rightarrow> nat list" where
  "uploaded_sizes h = map (\<lambda>(bs, r). length bs) (filter (\<lambda>(bs, r). r = None) h)"

text \<open>
  The statistics of \<open>w'\<close> account for the uploads since \<open>w\<close>: the success counter and
  the cumulative byte counter have grown by their number and by the sum of their
  sizes, and the gauge holds the size of the last of them (its old value if there is
  none).
\<close>

definition accounts :: "world \<Rightarrow> world \<Rightarrow> bool" where
  "accounts w w' =
     (sent w' = sent w @ new_uploads w w' \<and>
      stats w' numUploadsOK =
        stats w numUploadsOK + word_of_nat (length (uploaded_sizes (new_uploads w w'))) \<and>
      stats w' totalUploadBytes =
        stats w totalUploadBytes + word_of_nat (sum_list (uploaded_sizes (new_uploads w w'))) \<and>
      stats w' lastUploadBytes =
        (if uploaded_sizes (new_uploads w w') = [] then stats w lastUploadBytes
         else word_of_nat (last (uploaded_sizes (new_uploads w w')))))"

text \<open>
  The sum of the increments a step from \<open>w\<close> to \<open>w'\<close> applied to \<open>num_uploads_ok\<close>,
  \<open>num_uploads_fail\<close> and \<open>num_uploads_skipped\<close>.
\<close>

definition increments :: "world \<Rightarrow> world \<Rightarrow> int64" where
  "increments w w' =
     (stats w' numUploadsOK - stats w numUploadsOK) +
     (stats w' numUploadsFail - stats w numUploadsFail) +
     (stats w' numUploadsSkipped - stats w numUploadsSkipped)"

section \<open>Concrete inputs\<close>

text \<open>A reader over a five-byte file, read with two-byte buffers.\<close>

definition five_bytes :: "(byte list \<times> nat) io_Reader" where
  "five_bytes = \<lparr>Read = File_Read, self = ([1, 2, 3, 4, 5], 0)\<rparr>"

text \<open>
  A platform on which nothing fails, a provider that writes the three bytes 1, 2, 3 to
  the path it is given, a storage client that reads twice with a four-byte buffer and
  reports success, and a world with no files and fresh statistics. The "hash" of the
  sample platform reverses the bytes and its "compression" prepends a byte; the
  theorems hold for every choice of the two functions.
\<close>

definition env0 :: env where
  "env0 =
     \<lparr>os_fault = (\<lambda>n. None),
      os_tempname = (\<lambda>n. if n = 0 then ''rqlite-upload1'' else ''rqlite-upload2''),
      os_partial = (\<lambda>n. []), clock = (\<lambda>n. 1000 + int n),
      gzip = (\<lambda>bs. 31 # bs), sha256 = rev\<rparr>"

definition buf4 :: "byte list" where
  "buf4 = [0, 0, 0, 0]"

definition client_ok :: client where
  "client_ok = CallRead buf4 (\<lambda>r. CallRead buf4 (\<lambda>r. Return None))"

definition client_refuses :: client where
  "client_refuses = CallRead buf4 (\<lambda>r. Return (Some (IOError ''refused'')))"

definition provider123 ::
    "nat \<Rightarrow> path \<Rightarrow> (path \<rightharpoonup> byte list) \<Rightarrow> error option \<times> (path \<rightharpoonup> byte list)" where
  "provider123 n p fs = (None, fs(p \<mapsto> [1, 2, 3]))"

definition provider_fails ::
    "nat \<Rightarrow> path \<Rightarrow> (path \<rightharpoonup> byte list) \<Rightarrow> error option \<times> (path \<rightharpoonup> byte list)" where
  "provider_fails n p fs = (Some (IOError ''no snapshot''), fs)"

definition u0 :: Uploader where
  "u0 = NewUploader (\<lambda>n. client_ok) provider123 100 False"

definition w0 :: world where
  "w0 = \<lparr>files = Map.empty, stats = ResetStats (\<lambda>k. 0), sent = [], calls = 0\<rparr>"

text \<open>A world holding a snapshot file, and a platform on which the fourth call fails.\<close>

definition w_snapshot :: world where
  "w_snapshot = \<lparr>files = [''snapshot'' \<mapsto> [1, 2, 3]], stats = ResetStats (\<lambda>k. 0), sent = [], calls = 0\<rparr>"

definition env_fault :: "nat \<Rightarrow> env" where
  "env_fault k = env0\<lparr>os_fault := (\<lambda>n. if n = k then Some (IOError ''disk'') else None)\<rparr>"

text \<open>The sample service with a storage client that reads once and then refuses.\<close>

definition u_refused :: Uploader where
  "u_refused = u0\<lparr>storageClient := (\<lambda>n. client_refuses)\<rparr>"


text \<open>A provider whose snapshot is three bytes at first and five bytes later.\<close>

definition provider_changing ::
    "nat \<Rightarrow> path \<Rightarrow> (path \<rightharpoonup> byte list) \<Rightarrow> error option \<times> (path \<rightharpoonup> byte list)" where
  "provider_changing n p fs = (None, fs(p \<mapsto> (if n = 1 then [1, 2, 3] else [4, 5, 6, 7, 8])))"

definition u_changing :: Uploader where
  "u_changing = u0\<lparr>dataProvider := provider_changing\<rparr>"


definition u_uploaded :: Uploader where
  "u_uploaded = u0\<lparr>lastSum := Some [3, 2, 1]\<rparr>"


text \<open>A world whose skip counter holds the largest \<open>int64\<close>.\<close>

definition w_full :: world where
  "w_full = w0\<lparr>stats := (stats w0)(numUploadsSkipped := 9223372036854775807)\<rparr>"

section \<open>Readers and \<open>int64\<close> arithmetic\<close>

lemma counting_reads_reads:
  "counting_reads c ps =
     (fst (reads (reader c) ps),
      c\<lparr>reader := snd (reads (reader c) ps),
        count := count c + word_of_int (bytes_returned (fst (reads (reader c) ps)))\<rparr>)"
proof (induction ps arbitrary: c)
  case Nil
  show ?case by (simp add: bytes_returned_def)
next
  case (Cons p ps)
  show ?case
    by (simp add: Cons.IH countingReader_Read_def bytes_returned_def split: prod.splits)
qed

lemma sint_word_of_int_in_range:
  "- (2 ^ 63) \<le> i \<Longrightarrow> i < 2 ^ 63 \<Longrightarrow> sint (word_of_int i :: int64) = i"
  by (simp add: sint_sbintrunc' signed_take_bit_int_eq_self)

lemma sint_add_of_nat:
  assumes "sint (a :: int64) + int n < 2 ^ 63"
  shows "sint (a + word_of_nat n) = sint a + int n"
proof -
  have "a + word_of_nat n = word_of_int (sint a + int n)"
    by simp
  moreover have "- (2 ^ 63) \<le> sint a + int n"
    using sint_ge [of a] by simp
  ultimately show ?thesis
    using assms by (simp only: sint_word_of_int_in_range)
qed

lemma sint_add_one:
  assumes "sint (a :: int64) < 2 ^ 63 - 1"
  shows "sint (a + 1) = sint a + 1"
  using sint_add_of_nat [of a 1] assms by simp

section \<open>What each step leaves alone\<close>

lemma answered_simps [simp]:
  "files (answered w) = files w" "stats (answered w) = stats w"
  "sent (answered w) = sent w" "calls (answered w) = Suc (calls w)"
  by (simp_all add: answered_def)

lemma defer_os_Remove_simps [simp]:
  "files (defer_os_Remove e f w) =
     (if os_fault e (calls w) = None then (files w)(f := None) else files w)"
  "stats (defer_os_Remove e f w) = stats w"
  "sent (defer_os_Remove e f w) = sent w"
  "calls (defer_os_Remove e f w) = Suc (calls w)"
  by (auto simp: defer_os_Remove_def os_Remove_def split: option.splits)

lemma tempFilename_frame:
  "tempFilename e w = (r, w1) \<Longrightarrow> stats w1 = stats w \<and> sent w1 = sent w"
  by (auto simp: tempFilename_def os_CreateTemp_def Let_def split: option.splits if_splits)

lemma tempFilename_name:
  "tempFilename e w = (Inr f, w1) \<Longrightarrow> f = os_tempname e (calls w)"
  by (auto simp: tempFilename_def os_CreateTemp_def Let_def split: option.splits if_splits)

lemma tempFilename_Inr:
  "tempFilename e w = (Inr f, w1) \<Longrightarrow> files w f = None \<and> files w1 = (files w)(f \<mapsto> [])"
  by (auto simp: tempFilename_def os_CreateTemp_def Let_def split: option.splits if_splits)

lemma tempFilename_Inl:
  "tempFilename e w = (Inl err, w1) \<Longrightarrow> files w1 = files w"
  by (auto simp: tempFilename_def os_CreateTemp_def Let_def split: option.splits if_splits)

lemma Provide_frame:
  "Provide u f w = (r, w1) \<Longrightarrow> stats w1 = stats w \<and> sent w1 = sent w"
  by (auto simp: Provide_def split: prod.splits)

lemma os_Open_frame:
  "os_Open e f w = (r, w1) \<Longrightarrow> w1 = answered w"
  by (auto simp: os_Open_def split: option.splits if_splits)

lemma os_Open_Inr:
  "os_Open e f w = (Inr fd, w1) \<Longrightarrow> fd = f \<and> files w f \<noteq> None"
  by (auto simp: os_Open_def split: option.splits if_splits)

lemma os_Create_frame:
  "os_Create e f w = (r, w1) \<Longrightarrow> stats w1 = stats w \<and> sent w1 = sent w"
  by (auto simp: os_Create_def split: option.splits if_splits)

lemma os_Rename_frame:
  "os_Rename e a b w = (r, w1) \<Longrightarrow> stats w1 = stats w \<and> sent w1 = sent w"
  by (auto simp: os_Rename_def split: option.splits if_splits)

lemma io_Copy_frame:
  "io_Copy e gw src w = (r, w1) \<Longrightarrow> stats w1 = stats w \<and> sent w1 = sent w"
  by (auto simp: io_Copy_def)

lemma gw_Close_frame:
  "gw_Close e gw w = (r, w1) \<Longrightarrow> stats w1 = stats w \<and> sent w1 = sent w"
  by (auto simp: gw_Close_def split: option.splits)

lemma compressFromTo_frame:
  "compressFromTo e from to w = (r, w1) \<Longrightarrow> stats w1 = stats w \<and> sent w1 = sent w"
  unfolding compressFromTo_def
  by (auto split: prod.splits sum.splits option.splits
      dest!: os_Open_frame os_Create_frame io_Copy_frame gw_Close_frame)

lemma compressIfNeeded_frame:
  "compressIfNeeded e u p w = (r, w1) \<Longrightarrow> stats w1 = stats w \<and> sent w1 = sent w"
  unfolding compressIfNeeded_def
  by (auto split: prod.splits sum.splits option.splits if_splits
      dest!: tempFilename_frame compressFromTo_frame os_Rename_frame)

lemma FileSHA256_frame:
  "FileSHA256 e f w = (r, w1) \<Longrightarrow> w1 = answered w"
  by (auto simp: FileSHA256_def split: option.splits)

lemma time_Now_eq: "time_Now e w = (t, w1) \<longleftrightarrow> t = clock e (calls w) \<and> w1 = answered w"
  by (auto simp: time_Now_def)


lemma File_Read_counts:
  "File_Read p s = ((p', n, rerr), s') \<Longrightarrow> 0 \<le> n \<and> nat n = length (take (nat n) p')"
  by (auto simp: File_Read_def Let_def split: prod.splits if_splits)

lemma countingReader_Read_File:
  assumes "Read (reader cr) = File_Read"
      and "countingReader_Read cr p = ((p', n, rerr), cr')"
  shows "Read (reader cr') = File_Read \<and>
         count cr' = count cr + word_of_nat (length (take (nat n) p'))"
proof -
  obtain s' where rd: "File_Read p (self (reader cr)) = ((p', n, rerr), s')"
    and cr': "cr' = cr\<lparr>reader := (reader cr)\<lparr>self := s'\<rparr>, count := count cr + word_of_int n\<rparr>"
    using assms by (auto simp: countingReader_Read_def call_Read_def split: prod.splits)
  from File_Read_counts [OF rd] have "0 \<le> n" "nat n = length (take (nat n) p')" by auto
  then have "(word_of_int n :: int64) = word_of_nat (length (take (nat n) p'))"
    by (metis of_int_of_nat_eq int_nat_eq)
  with cr' assms(1) show ?thesis by simp
qed

lemma run_client_File:
  "Read (reader cr) = File_Read \<Longrightarrow> run_client cl cr got = (err, cr', got') \<Longrightarrow>
     \<exists>extra. got' = got @ extra \<and> count cr' = count cr + word_of_nat (length extra)"
proof (induction cl arbitrary: cr got)
  case (Return x)
  then show ?case by simp
next
  case (CallRead p k)
  obtain p' n rerr cr1 where step: "countingReader_Read cr p = ((p', n, rerr), cr1)"
    by (cases "countingReader_Read cr p") auto
  with CallRead.prems(2)
  have rest: "run_client (k (p', n, rerr)) cr1 (got @ take (nat n) p') = (err, cr', got')"
    by simp
  from countingReader_Read_File [OF CallRead.prems(1) step]
  have inv: "Read (reader cr1) = File_Read"
    and cnt: "count cr1 = count cr + word_of_nat (length (take (nat n) p'))" by auto
  from CallRead.IH [OF _ inv rest] obtain extra where
    "got' = (got @ take (nat n) p') @ extra" "count cr' = count cr1 + word_of_nat (length extra)"
    by auto
  with cnt show ?case by (intro exI [of _ "take (nat n) p' @ extra"]) simp
qed

lemma Upload_File:
  assumes "Upload u \<lparr>reader = File_reader v fd, count = 0\<rparr> w = ((err, cr'), w1)"
  shows "\<exists>got. w1 = answered (w\<lparr>sent := sent w @ [(got, err)]\<rparr>) \<and>
               count cr' = word_of_nat (length got)"
proof -
  obtain got where
    run: "run_client (storageClient u (calls w)) \<lparr>reader = File_reader v fd, count = 0\<rparr> [] =
            (err, cr', got)"
    and w1: "w1 = answered (w\<lparr>sent := sent w @ [(got, err)]\<rparr>)"
    using assms by (auto simp: Upload_def split: prod.splits)
  have "Read (reader \<lparr>reader = File_reader v fd, count = (0::int64)\<rparr>) = File_Read"
    by (simp add: File_reader_def)
  from run_client_File [OF this run] w1 show ?thesis by auto
qed

section \<open>The returns of \<open>upload\<close>, one by one\<close>

lemma staged_frame:
  assumes "tempFilename e w = (Inr f, w1)"
      and "Provide u f w1 = (None, w2)"
      and "compressIfNeeded e u f w2 = (None, w3)"
      and "FileSHA256 e f w3 = (Inr sm, w4)"
  shows "stats w4 = stats w \<and> sent w4 = sent w"
  using tempFilename_frame [OF assms(1)] Provide_frame [OF assms(2)]
    compressIfNeeded_frame [OF assms(3)] FileSHA256_frame [OF assms(4)]
  by simp

lemma upload_tempFilename_failed:
  assumes "tempFilename e w = (Inl err, w1)"
  shows "upload e u w = (Some err, u, w1)"
  by (simp add: upload_def assms)

lemma upload_Provide_failed:
  assumes "tempFilename e w = (Inr f, w1)"
      and "Provide u f w1 = (Some err, w2)"
  shows "upload e u w = (Some err, u, defer_os_Remove e f w2)"
  by (simp add: upload_def upload_deferred_def assms)

lemma upload_compress_failed:
  assumes "tempFilename e w = (Inr f, w1)"
      and "Provide u f w1 = (None, w2)"
      and "compressIfNeeded e u f w2 = (Some err, w3)"
  shows "upload e u w = (Some err, u, defer_os_Remove e f w3)"
  by (simp add: upload_def upload_deferred_def assms)

lemma upload_FileSHA256_failed:
  assumes "tempFilename e w = (Inr f, w1)"
      and "Provide u f w1 = (None, w2)"
      and "compressIfNeeded e u f w2 = (None, w3)"
      and "FileSHA256 e f w3 = (Inl err, w4)"
  shows "upload e u w = (Some err, u, defer_os_Remove e f w4)"
  by (simp add: upload_def upload_deferred_def assms)

lemma upload_skipped:
  assumes "tempFilename e w = (Inr f, w1)"
      and "Provide u f w1 = (None, w2)"
      and "compressIfNeeded e u f w2 = (None, w3)"
      and "FileSHA256 e f w3 = (Inr sm, w4)"
      and "\<not> disableSumCheck u" and "Equals sm (lastSum u)"
  shows "upload e u w =
           (None, u, defer_os_Remove e f (w4\<lparr>stats := stats_Add numUploadsSkipped 1 (stats w4)\<rparr>))"
  by (simp add: upload_def upload_deferred_def assms)

lemma upload_Open_failed:
  assumes "tempFilename e w = (Inr f, w1)"
      and "Provide u f w1 = (None, w2)"
      and "compressIfNeeded e u f w2 = (None, w3)"
      and "FileSHA256 e f w3 = (Inr sm, w4)"
      and "disableSumCheck u \<or> \<not> Equals sm (lastSum u)"
      and "os_Open e f w4 = (Inl err, w5)"
  shows "upload e u w = (Some err, u, defer_os_Remove e f w5)"
  using assms(5) by (auto simp add: upload_def upload_deferred_def assms(1-4,6))

lemma upload_Upload_failed:
  assumes "tempFilename e w = (Inr f, w1)"
      and "Provide u f w1 = (None, w2)"
      and "compressIfNeeded e u f w2 = (None, w3)"
      and "FileSHA256 e f w3 = (Inr sm, w4)"
      and "disableSumCheck u \<or> \<not> Equals sm (lastSum u)"
      and "os_Open e f w4 = (Inr fd, w5)"
      and "time_Now e w5 = (startTime, w6)"
      and "Upload u \<lparr>reader = File_reader w5 fd, count = 0\<rparr> w6 = ((Some err, cr'), w7)"
  shows "upload e u w =
           (Some err, u, defer_os_Remove e f (w7\<lparr>stats := stats_Add numUploadsFail 1 (stats w7)\<rparr>))"
proof -
  from assms(7) have w6: "w6 = answered w5"
    by (simp add: time_Now_def)
  have now: "\<And>v. time_Now e v = (clock e (calls v), answered v)"
    by (simp add: time_Now_def)
  from assms(5) show ?thesis
    by (auto simp add: upload_def upload_deferred_def assms(1-4,6) assms(8) [unfolded w6] now)
qed

lemma upload_Upload_ok:
  assumes "tempFilename e w = (Inr f, w1)"
      and "Provide u f w1 = (None, w2)"
      and "compressIfNeeded e u f w2 = (None, w3)"
      and "FileSHA256 e f w3 = (Inr sm, w4)"
      and "disableSumCheck u \<or> \<not> Equals sm (lastSum u)"
      and "os_Open e f w4 = (Inr fd, w5)"
      and "time_Now e w5 = (startTime, w6)"
      and "Upload u \<lparr>reader = File_reader w5 fd, count = 0\<rparr> w6 = ((None, cr'), w7)"
  shows "upload e u w =
           (None,
            u\<lparr>lastSum := sm, lastUploadTime := clock e (calls w7),
              lastUploadDuration := clock e (Suc (calls w7)) - startTime\<rparr>,
            defer_os_Remove e f (answered (answered (w7\<lparr>stats :=
              stats_Set lastUploadBytes (count cr')
                (stats_Add totalUploadBytes (count cr')
                  (stats_Add numUploadsOK 1 (stats w7)))\<rparr>))))"
proof -
  have now: "\<And>v. time_Now e v = (clock e (calls v), answered v)"
    by (simp add: time_Now_def)
  have "upload_deferred e u f w1 =
          (None,
            u\<lparr>lastSum := sm, lastUploadTime := clock e (calls w7),
              lastUploadDuration := clock e (Suc (calls w7)) - startTime\<rparr>,
            answered (answered (w7\<lparr>stats :=
              stats_Set lastUploadBytes (count cr')
                (stats_Add totalUploadBytes (count cr')
                  (stats_Add numUploadsOK 1 (stats w7)))\<rparr>)))"
  proof -
    from assms(7) have st: "startTime = clock e (calls w5)" and w6: "w6 = answered w5"
      by (simp_all add: time_Now_def)
    from assms(5) show ?thesis
      by (auto simp add: upload_deferred_def assms(2-4,6) assms(8) [unfolded w6] now st Let_def)
  qed
  then show ?thesis by (simp add: upload_def assms(1))
qed


text \<open>Past the dedup decision with the staged file open: \<open>Upload\<close> is called once.\<close>

lemma upload_transmitted:
  assumes "tempFilename e w = (Inr f, w1)"
      and "Provide u f w1 = (None, w2)"
      and "compressIfNeeded e u f w2 = (None, w3)"
      and "FileSHA256 e f w3 = (Inr sm, w4)"
      and "disableSumCheck u \<or> \<not> Equals sm (lastSum u)"
      and "os_Open e f w4 = (Inr fd, w5)"
  shows "\<exists>got. sent (snd (snd (upload e u w))) = sent w @ [(got, fst (upload e u w))] \<and>
           (case fst (upload e u w) of
              Some err \<Rightarrow>
                fst (snd (upload e u w)) = u \<and>
                stats (snd (snd (upload e u w))) = stats_Add numUploadsFail 1 (stats w)
            | None \<Rightarrow>
                lastSum (fst (snd (upload e u w))) = sm \<and>
                stats (snd (snd (upload e u w))) =
                  stats_Set lastUploadBytes (word_of_nat (length got))
                    (stats_Add totalUploadBytes (word_of_nat (length got))
                      (stats_Add numUploadsOK 1 (stats w))))"
proof -
  let ?cr = "\<lparr>reader = File_reader w5 fd, count = 0 :: int64\<rparr>"
  obtain startTime w6 where now: "time_Now e w5 = (startTime, w6)"
    by (cases "time_Now e w5") auto
  obtain err cr' w7 where up: "Upload u ?cr w6 = ((err, cr'), w7)"
    by (cases "Upload u ?cr w6") auto
  from Upload_File [OF up] obtain got
    where w7: "w7 = answered (w6\<lparr>sent := sent w6 @ [(got, err)]\<rparr>)"
      and cnt: "count cr' = word_of_nat (length got)" by auto
  from now have w6: "w6 = answered w5" by (simp add: time_Now_def)
  from os_Open_frame [OF assms(6)] have w5: "w5 = answered w4" .
  from staged_frame [OF assms(1-4)] have fr: "stats w4 = stats w" "sent w4 = sent w" by auto
  show ?thesis
  proof (cases err)
    case None
    from upload_Upload_ok [OF assms now up [unfolded None]] show ?thesis
      by (intro exI [of _ got]) (simp add: w7 w6 w5 fr cnt None)
  next
    case (Some x)
    from upload_Upload_failed [OF assms now up [unfolded Some]] show ?thesis
      by (intro exI [of _ got]) (simp add: w7 w6 w5 fr Some)
  qed
qed

text \<open>Every cycle ends in one of four ways.\<close>

lemma upload_cases:
  "(fst (upload e u w) \<noteq> None \<and> fst (snd (upload e u w)) = u \<and>
      stats (snd (snd (upload e u w))) = stats w \<and>
      sent (snd (snd (upload e u w))) = sent w)
   \<or> (fst (upload e u w) = None \<and> fst (snd (upload e u w)) = u \<and>
      stats (snd (snd (upload e u w))) = stats_Add numUploadsSkipped 1 (stats w) \<and>
      sent (snd (snd (upload e u w))) = sent w)
   \<or> (\<exists>got err. fst (upload e u w) = Some err \<and> fst (snd (upload e u w)) = u \<and>
      stats (snd (snd (upload e u w))) = stats_Add numUploadsFail 1 (stats w) \<and>
      sent (snd (snd (upload e u w))) = sent w @ [(got, Some err)])
   \<or> (\<exists>got. fst (upload e u w) = None \<and>
      stats (snd (snd (upload e u w))) =
        stats_Set lastUploadBytes (word_of_nat (length got))
          (stats_Add totalUploadBytes (word_of_nat (length got))
            (stats_Add numUploadsOK 1 (stats w))) \<and>
      sent (snd (snd (upload e u w))) = sent w @ [(got, None)])"
proof (cases "tempFilename e w")
  case (Pair r1 w1)
  show ?thesis
  proof (cases r1)
    case (Inl err)
    from upload_tempFilename_failed [OF Pair [unfolded Inl]] tempFilename_frame [OF Pair]
    show ?thesis by simp
  next
    case (Inr f)
    note t = Pair [unfolded Inr]
    show ?thesis
    proof (cases "Provide u f w1")
      case (Pair r2 w2)
      note p = this
      show ?thesis
      proof (cases r2)
        case (Some err)
        from upload_Provide_failed [OF t p [unfolded Some]]
          tempFilename_frame [OF t] Provide_frame [OF p]
        show ?thesis by simp
      next
        case None
        note p = p [unfolded None]
        show ?thesis
        proof (cases "compressIfNeeded e u f w2")
          case (Pair r3 w3)
          note c = this
          show ?thesis
          proof (cases r3)
            case (Some err)
            from upload_compress_failed [OF t p c [unfolded Some]]
              tempFilename_frame [OF t] Provide_frame [OF p] compressIfNeeded_frame [OF c]
            show ?thesis by simp
          next
            case None
            note c = c [unfolded None]
            show ?thesis
            proof (cases "FileSHA256 e f w3")
              case (Pair r4 w4)
              note h = this
              show ?thesis
              proof (cases r4)
                case (Inl err)
                from upload_FileSHA256_failed [OF t p c h [unfolded Inl]]
                  tempFilename_frame [OF t] Provide_frame [OF p] compressIfNeeded_frame [OF c]
                  FileSHA256_frame [OF h]
                show ?thesis by simp
              next
                case (Inr sm)
                note h = h [unfolded Inr]
                note fr = staged_frame [OF t p c h]
                show ?thesis
                proof (cases "\<not> disableSumCheck u \<and> Equals sm (lastSum u)")
                  case True
                  then have a: "\<not> disableSumCheck u" and b: "Equals sm (lastSum u)" by auto
                  from upload_skipped [OF t p c h a b] fr show ?thesis by simp
                next
                  case False
                  then have ns: "disableSumCheck u \<or> \<not> Equals sm (lastSum u)" by auto
                  show ?thesis
                  proof (cases "os_Open e f w4")
                    case (Pair r5 w5)
                    note op = this
                    show ?thesis
                    proof (cases r5)
                      case (Inl err)
                      from upload_Open_failed [OF t p c h ns op [unfolded Inl]]
                        os_Open_frame [OF op] fr
                      show ?thesis by simp
                    next
                      case (Inr fd)
                      from upload_transmitted [OF t p c h ns op [unfolded Inr]]
                      obtain got where
                        s: "sent (snd (snd (upload e u w))) = sent w @ [(got, fst (upload e u w))]"
                        and k: "(case fst (upload e u w) of
                            Some err \<Rightarrow>
                              fst (snd (upload e u w)) = u \<and>
                              stats (snd (snd (upload e u w))) = stats_Add numUploadsFail 1 (stats w)
                          | None \<Rightarrow>
                              lastSum (fst (snd (upload e u w))) = sm \<and>
                              stats (snd (snd (upload e u w))) =
                                stats_Set lastUploadBytes (word_of_nat (length got))
                                  (stats_Add totalUploadBytes (word_of_nat (length got))
                                    (stats_Add numUploadsOK 1 (stats w))))"
                        by blast
                      show ?thesis
                      proof (cases "fst (upload e u w)")
                        case None
                        with s k show ?thesis by auto
                      next
                        case (Some err)
                        with s k show ?thesis by auto
                      qed
                    qed
                  qed
                qed
              qed
            qed
          qed
        qed
      qed
    qed
  qed
qed


section \<open>The compression step\<close>

lemma compressFromTo_files:
  "compressFromTo e from to w = (r, w') \<Longrightarrow> \<exists>c. files w' = files w \<or> files w' = (files w)(to \<mapsto> c)"
  unfolding compressFromTo_def
  by (auto simp: os_Open_def os_Create_def io_Copy_def gw_Close_def gzip_NewWriter_def
      split: option.splits if_splits)

lemma compressFromTo_ok:
  "compressFromTo e from to w = (None, w') \<Longrightarrow> from \<noteq> to \<Longrightarrow>
     files w from \<noteq> None \<and> files w' = (files w)(to \<mapsto> gzip e (File_content w from)) \<and>
     (\<forall>i<4. os_fault e (calls w + i) = None) \<and> calls w' = calls w + 4"
  unfolding compressFromTo_def
  by (auto simp: os_Open_def os_Create_def io_Copy_def gw_Close_def gzip_NewWriter_def
      File_content_def less_Suc_eq numeral_eq_Suc split: option.splits if_splits)

lemma compressIfNeeded_failed:
  assumes "compressIfNeeded e u p w = (Some err, w')"
  shows "(files w' = files w \<or>
          (\<exists>c. files w (os_tempname e (calls w)) = None \<and>
               files w' = (files w)(os_tempname e (calls w) \<mapsto> c))) \<and>
         (os_fault e (calls w' - 1) = None \<longrightarrow> files w' = files w)"
proof (cases "compress u")
  case False
  with assms show ?thesis by (simp add: compressIfNeeded_def)
next
  case True
  show ?thesis
  proof (cases "tempFilename e w")
    case (Pair r1 w1)
    show ?thesis
    proof (cases r1)
      case (Inl x)
      with assms True Pair tempFilename_Inl [of e w x w1] show ?thesis
        by (simp add: compressIfNeeded_def)
    next
      case (Inr t)
      note tf = tempFilename_Inr [OF Pair [unfolded Inr]]
      from tempFilename_name [OF Pair [unfolded Inr]] have t: "t = os_tempname e (calls w)" .
      obtain r2 w2 where c: "compressFromTo e p t w1 = (r2, w2)"
        by (cases "compressFromTo e p t w1") auto
      from compressFromTo_files [OF c] obtain c2
        where f2: "files w2 = files w1 \<or> files w2 = (files w1)(t \<mapsto> c2)" by auto
      have left: "files w3 = files w2 \<Longrightarrow> w' = defer_os_Remove e t w3 \<Longrightarrow> ?thesis" for w3
      proof -
        assume a: "files w3 = files w2" "w' = defer_os_Remove e t w3"
        from a(2) have idx: "calls w' - 1 = calls w3" by simp
        from f2 a(1) tf consider "files w3 = (files w)(t \<mapsto> [])" | "files w3 = (files w)(t \<mapsto> c2)"
          by auto
        then show ?thesis
        proof cases
          case 1
          with a(2) tf have "(files w' = files w \<or> files w' = (files w)(t \<mapsto> [])) \<and>
              (os_fault e (calls w3) = None \<longrightarrow> files w' = files w)"
            by (cases "os_fault e (calls w3) = None") auto
          with tf t idx show ?thesis by auto
        next
          case 2
          with a(2) tf have "(files w' = files w \<or> files w' = (files w)(t \<mapsto> c2)) \<and>
              (os_fault e (calls w3) = None \<longrightarrow> files w' = files w)"
            by (cases "os_fault e (calls w3) = None") auto
          with tf t idx show ?thesis by auto
        qed
      qed
      show ?thesis
      proof (cases r2)
        case (Some x)
        with assms True Pair Inr c have "w' = defer_os_Remove e t w2"
          by (simp add: compressIfNeeded_def)
        with left [of w2] show ?thesis by simp
      next
        case None
        obtain r3 w3 where rn: "os_Rename e t p w2 = (r3, w3)"
          by (cases "os_Rename e t p w2") auto
        with assms True Pair Inr c None have w': "w' = defer_os_Remove e t w3" and r3: "r3 = Some err"
          by (simp_all add: compressIfNeeded_def)
        from rn r3 have "files w3 = files w2"
          by (auto simp: os_Rename_def split: option.splits)
        with left [of w3] w' show ?thesis by simp
      qed
    qed
  qed
qed

lemma compressIfNeeded_ok:
  assumes "compress u" and "compressIfNeeded e u p w = (None, w')" and "files w p = Some c"
  shows "files w' = (files w)(p \<mapsto> gzip e c) \<and> (\<forall>i<6. os_fault e (calls w + i) = None)"
proof -
  obtain r1 w1 where t: "tempFilename e w = (r1, w1)" by (cases "tempFilename e w") auto
  with assms obtain tmp where r1: "r1 = Inr tmp"
    by (cases r1) (auto simp: compressIfNeeded_def)
  note tf = tempFilename_Inr [OF t [unfolded r1]]
  from tf assms(3) have ne: "p \<noteq> tmp" by auto
  from t r1 have cw1: "calls w1 = Suc (calls w)" "os_fault e (calls w) = None"
    by (auto simp: tempFilename_def os_CreateTemp_def Let_def split: option.splits if_splits)
  obtain r2 w2 where c: "compressFromTo e p tmp w1 = (r2, w2)"
    by (cases "compressFromTo e p tmp w1") auto
  with assms t r1 have r2: "r2 = None"
    by (cases r2) (auto simp: compressIfNeeded_def)
  note ok = compressFromTo_ok [OF c [unfolded r2] ne]
  from assms t r1 c r2 obtain w3 where rn: "os_Rename e tmp p w2 = (None, w3)"
    and w': "w' = defer_os_Remove e tmp w3"
    by (cases "os_Rename e tmp p w2") (auto simp: compressIfNeeded_def)
  from ok tf ne assms(3) have f2: "files w2 = (files w)(tmp \<mapsto> gzip e c)"
    by (auto simp: File_content_def)
  from rn f2 have f3: "files w3 = ((files w)(tmp := None))(p \<mapsto> gzip e c)"
    and nf: "os_fault e (calls w2) = None"
    by (auto simp: os_Rename_def split: option.splits)
  from f3 w' tf ne have "files w' = (files w)(p \<mapsto> gzip e c)"
    by (auto simp: fun_eq_iff)
  moreover have "\<forall>i<6. os_fault e (calls w + i) = None"
  proof (intro allI impI)
    fix i :: nat assume "i < 6"
    then consider "i = 0" | "i = 5" | j where "i = Suc j" "j < 4" 
      by (cases i) (auto simp: less_Suc_eq numeral_eq_Suc)
    then show "os_fault e (calls w + i) = None"
    proof cases
      case 1 with cw1 show ?thesis by simp
    next
      case 2 with nf ok cw1 show ?thesis by (simp add: add.commute)
    next
      case 3 with ok cw1 show ?thesis by simp
    qed
  qed
  ultimately show ?thesis by simp
qed

section \<open>The sample inputs, step by step\<close>

lemmas sample_defs = env0_def u0_def w0_def NewUploader_def client_ok_def client_refuses_def
  provider123_def provider_fails_def buf4_def

lemmas step_defs = tempFilename_def os_CreateTemp_def Provide_def compressIfNeeded_def
  compressFromTo_def os_Open_def os_Create_def os_Rename_def io_Copy_def gw_Close_def
  gzip_NewWriter_def File_content_def FileSHA256_def time_Now_def Upload_def
  countingReader_Read_def call_Read_def File_reader_def File_Read_def answered_def
  os_Remove_def defer_os_Remove_def Equals_def stats_Add_def stats_Set_def ResetStats_def Let_def

text \<open>The sample cycle whose staged content has the digest already held in \<open>lastSum\<close>.\<close>

lemma sample_skip_steps:
  "tempFilename env0 w0 =
     (Inr ''rqlite-upload1'', w0\<lparr>files := [''rqlite-upload1'' \<mapsto> []], calls := 1\<rparr>)"
  "Provide (u0\<lparr>lastSum := Some [3, 2, 1]\<rparr>) ''rqlite-upload1''
     (w0\<lparr>files := [''rqlite-upload1'' \<mapsto> []], calls := 1\<rparr>) =
     (None, w0\<lparr>files := [''rqlite-upload1'' \<mapsto> [1, 2, 3]], calls := 2\<rparr>)"
  "compressIfNeeded env0 (u0\<lparr>lastSum := Some [3, 2, 1]\<rparr>) ''rqlite-upload1''
     (w0\<lparr>files := [''rqlite-upload1'' \<mapsto> [1, 2, 3]], calls := 2\<rparr>) =
     (None, w0\<lparr>files := [''rqlite-upload1'' \<mapsto> [1, 2, 3]], calls := 2\<rparr>)"
  "FileSHA256 env0 ''rqlite-upload1''
     (w0\<lparr>files := [''rqlite-upload1'' \<mapsto> [1, 2, 3]], calls := 2\<rparr>) =
     (Inr (Some [3, 2, 1]), w0\<lparr>files := [''rqlite-upload1'' \<mapsto> [1, 2, 3]], calls := 3\<rparr>)"
  by (simp_all add: sample_defs step_defs)

lemma sample_skip_condition:
  "\<not> disableSumCheck (u0\<lparr>lastSum := Some [3, 2, 1]\<rparr>)"
  "Equals (Some [3, 2, 1]) (lastSum (u0\<lparr>lastSum := Some [3, 2, 1]\<rparr>))"
  by (simp_all add: u0_def NewUploader_def Equals_def)

text \<open>The sample cycle whose transmission is refused, and the cycle after it.\<close>

lemma sample_refused_steps:
  "Provide u_refused ''rqlite-upload1''
     (w0\<lparr>files := [''rqlite-upload1'' \<mapsto> []], calls := 1\<rparr>) =
     (None, w0\<lparr>files := [''rqlite-upload1'' \<mapsto> [1, 2, 3]], calls := 2\<rparr>)"
  "compressIfNeeded env0 u_refused ''rqlite-upload1''
     (w0\<lparr>files := [''rqlite-upload1'' \<mapsto> [1, 2, 3]], calls := 2\<rparr>) =
     (None, w0\<lparr>files := [''rqlite-upload1'' \<mapsto> [1, 2, 3]], calls := 2\<rparr>)"
  "disableSumCheck u_refused \<or> \<not> Equals (Some [3, 2, 1]) (lastSum u_refused)"
  "os_Open env0 ''rqlite-upload1''
     (w0\<lparr>files := [''rqlite-upload1'' \<mapsto> [1, 2, 3]], calls := 3\<rparr>) =
     (Inr ''rqlite-upload1'', w0\<lparr>files := [''rqlite-upload1'' \<mapsto> [1, 2, 3]], calls := 4\<rparr>)"
  "time_Now env0 (w0\<lparr>files := [''rqlite-upload1'' \<mapsto> [1, 2, 3]], calls := 4\<rparr>) =
     (1004, w0\<lparr>files := [''rqlite-upload1'' \<mapsto> [1, 2, 3]], calls := 5\<rparr>)"
  "Upload u_refused
     \<lparr>reader = File_reader (w0\<lparr>files := [''rqlite-upload1'' \<mapsto> [1, 2, 3]], calls := 4\<rparr>)
        ''rqlite-upload1'', count = 0\<rparr>
     (w0\<lparr>files := [''rqlite-upload1'' \<mapsto> [1, 2, 3]], calls := 5\<rparr>) =
     ((Some (IOError ''refused''),
       \<lparr>reader = \<lparr>Read = File_Read, self = ([1, 2, 3], 3)\<rparr>, count = 3\<rparr>),
      w0\<lparr>files := [''rqlite-upload1'' \<mapsto> [1, 2, 3]],
         sent := [([1, 2, 3], Some (IOError ''refused''))], calls := 6\<rparr>)"
  by (simp_all add: u_refused_def sample_defs step_defs)




text \<open>The sample cycle that uploads, and two cycles with changing content.\<close>

lemma sample_ok_steps:
  "Provide u0 ''rqlite-upload1''
     (w0\<lparr>files := [''rqlite-upload1'' \<mapsto> []], calls := 1\<rparr>) =
     (None, w0\<lparr>files := [''rqlite-upload1'' \<mapsto> [1, 2, 3]], calls := 2\<rparr>)"
  "compressIfNeeded env0 u0 ''rqlite-upload1''
     (w0\<lparr>files := [''rqlite-upload1'' \<mapsto> [1, 2, 3]], calls := 2\<rparr>) =
     (None, w0\<lparr>files := [''rqlite-upload1'' \<mapsto> [1, 2, 3]], calls := 2\<rparr>)"
  "disableSumCheck u0 \<or> \<not> Equals (Some [3, 2, 1]) (lastSum u0)"
  "Upload u0
     \<lparr>reader = File_reader (w0\<lparr>files := [''rqlite-upload1'' \<mapsto> [1, 2, 3]], calls := 4\<rparr>)
        ''rqlite-upload1'', count = 0\<rparr>
     (w0\<lparr>files := [''rqlite-upload1'' \<mapsto> [1, 2, 3]], calls := 5\<rparr>) =
     ((None, \<lparr>reader = \<lparr>Read = File_Read, self = ([1, 2, 3], 3)\<rparr>, count = 3\<rparr>),
      w0\<lparr>files := [''rqlite-upload1'' \<mapsto> [1, 2, 3]],
         sent := [([1, 2, 3], None)], calls := 6\<rparr>)"
  by (simp_all add: sample_defs step_defs)

lemma sample_two_uploads:
  "sent (snd (cycles env0 2 u_changing w0)) = [([1, 2, 3], None), ([4, 5, 6, 7, 8], None)]"
  by (simp add: numeral_2_eq_2 upload_def upload_deferred_def u_changing_def provider_changing_def
      sample_defs step_defs)

lemma sample_ok_cycle:
  "upload env0 u0 w0 =
     (None, u0\<lparr>lastSum := Some [3, 2, 1], lastUploadTime := 1006, lastUploadDuration := 3\<rparr>,
      w0\<lparr>stats := (stats w0)(numUploadsOK := 1, totalUploadBytes := 3, lastUploadBytes := 3),
         sent := [([1, 2, 3], None)], calls := 9\<rparr>)"
  using upload_Upload_ok [OF sample_skip_steps(1) sample_ok_steps(1,2) sample_skip_steps(4)
      sample_ok_steps(3) sample_refused_steps(4,5) sample_ok_steps(4)]
  by (simp add: w0_def env0_def os_Remove_def defer_os_Remove_def answered_def stats_Add_def stats_Set_def
      ResetStats_def fun_eq_iff)

text \<open>Sample cycles that fail at each step in turn.\<close>

lemma sample_fault_steps:
  "tempFilename (env_fault 0) w0 = (Inl (IOError ''disk''), w0\<lparr>calls := 1\<rparr>)"
  "tempFilename (env_fault 2) w0 =
     (Inr ''rqlite-upload1'', w0\<lparr>files := [''rqlite-upload1'' \<mapsto> []], calls := 1\<rparr>)"
  "tempFilename (env_fault 3) w0 =
     (Inr ''rqlite-upload1'', w0\<lparr>files := [''rqlite-upload1'' \<mapsto> []], calls := 1\<rparr>)"
  "Provide (u0\<lparr>dataProvider := provider_fails\<rparr>) ''rqlite-upload1''
     (w0\<lparr>files := [''rqlite-upload1'' \<mapsto> []], calls := 1\<rparr>) =
     (Some (IOError ''no snapshot''), w0\<lparr>files := [''rqlite-upload1'' \<mapsto> []], calls := 2\<rparr>)"
  "Provide (u0\<lparr>compress := True\<rparr>) ''rqlite-upload1''
     (w0\<lparr>files := [''rqlite-upload1'' \<mapsto> []], calls := 1\<rparr>) =
     (None, w0\<lparr>files := [''rqlite-upload1'' \<mapsto> [1, 2, 3]], calls := 2\<rparr>)"
  "compressIfNeeded (env_fault 2) (u0\<lparr>compress := True\<rparr>) ''rqlite-upload1''
     (w0\<lparr>files := [''rqlite-upload1'' \<mapsto> [1, 2, 3]], calls := 2\<rparr>) =
     (Some (IOError ''disk''), w0\<lparr>files := [''rqlite-upload1'' \<mapsto> [1, 2, 3]], calls := 3\<rparr>)"
  "compressIfNeeded (env_fault 2) u0 ''rqlite-upload1''
     (w0\<lparr>files := [''rqlite-upload1'' \<mapsto> [1, 2, 3]], calls := 2\<rparr>) =
     (None, w0\<lparr>files := [''rqlite-upload1'' \<mapsto> [1, 2, 3]], calls := 2\<rparr>)"
  "FileSHA256 (env_fault 2) ''rqlite-upload1''
     (w0\<lparr>files := [''rqlite-upload1'' \<mapsto> [1, 2, 3]], calls := 2\<rparr>) =
     (Inl (IOError ''disk''), w0\<lparr>files := [''rqlite-upload1'' \<mapsto> [1, 2, 3]], calls := 3\<rparr>)"
  "compressIfNeeded (env_fault 3) u0 ''rqlite-upload1''
     (w0\<lparr>files := [''rqlite-upload1'' \<mapsto> [1, 2, 3]], calls := 2\<rparr>) =
     (None, w0\<lparr>files := [''rqlite-upload1'' \<mapsto> [1, 2, 3]], calls := 2\<rparr>)"
  "FileSHA256 (env_fault 3) ''rqlite-upload1''
     (w0\<lparr>files := [''rqlite-upload1'' \<mapsto> [1, 2, 3]], calls := 2\<rparr>) =
     (Inr (Some [3, 2, 1]), w0\<lparr>files := [''rqlite-upload1'' \<mapsto> [1, 2, 3]], calls := 3\<rparr>)"
  "os_Open (env_fault 3) ''rqlite-upload1''
     (w0\<lparr>files := [''rqlite-upload1'' \<mapsto> [1, 2, 3]], calls := 3\<rparr>) =
     (Inl (IOError ''disk''), w0\<lparr>files := [''rqlite-upload1'' \<mapsto> [1, 2, 3]], calls := 4\<rparr>)"
  "tempFilename (env_fault 8) w0 =
     (Inr ''rqlite-upload1'', w0\<lparr>files := [''rqlite-upload1'' \<mapsto> []], calls := 1\<rparr>)"
  by (simp_all add: env_fault_def sample_defs step_defs)

lemma sample_open_fails:
  "upload (env_fault 3) u0 w0 = (Some (IOError ''disk''), u0, w0\<lparr>calls := 5\<rparr>)"
  by (simp add: upload_def upload_deferred_def env_fault_def sample_defs step_defs fun_eq_iff)




text \<open>A skipped cycle in the world whose skip counter is full.\<close>

lemma sample_wraps:
  "upload env0 u_uploaded w_full =
     (None, u_uploaded,
      w_full\<lparr>stats := (stats w_full)(numUploadsSkipped := 9223372036854775808), calls := 4\<rparr>)"
  by (simp add: upload_def upload_deferred_def w_full_def u_uploaded_def sample_defs step_defs
      fun_eq_iff)

section \<open>Accounting over several cycles\<close>

lemma uploaded_sizes_simps [simp]:
  "uploaded_sizes [] = []"
  "uploaded_sizes [(got, None)] = [length got]"
  "uploaded_sizes [(got, Some err)] = []"
  "uploaded_sizes (a @ b) = uploaded_sizes a @ uploaded_sizes b"
  by (simp_all add: uploaded_sizes_def)

lemma accounts_iff:
  "accounts w w' \<longleftrightarrow>
     (\<exists>new. sent w' = sent w @ new \<and>
        stats w' numUploadsOK = stats w numUploadsOK + word_of_nat (length (uploaded_sizes new)) \<and>
        stats w' totalUploadBytes =
          stats w totalUploadBytes + word_of_nat (sum_list (uploaded_sizes new)) \<and>
        stats w' lastUploadBytes =
          (if uploaded_sizes new = [] then stats w lastUploadBytes
           else word_of_nat (last (uploaded_sizes new))))"
  (is "?l \<longleftrightarrow> ?r")
proof
  assume ?l
  then show ?r unfolding accounts_def by (intro exI [of _ "new_uploads w w'"]) simp
next
  assume ?r
  then obtain new where n: "sent w' = sent w @ new"
    and rest: "stats w' numUploadsOK = stats w numUploadsOK + word_of_nat (length (uploaded_sizes new))"
      "stats w' totalUploadBytes =
          stats w totalUploadBytes + word_of_nat (sum_list (uploaded_sizes new))"
      "stats w' lastUploadBytes =
          (if uploaded_sizes new = [] then stats w lastUploadBytes
           else word_of_nat (last (uploaded_sizes new)))"
    by blast
  from n have "new_uploads w w' = new" by (simp add: new_uploads_def)
  with n rest show ?l unfolding accounts_def by simp
qed

lemma accounts_refl: "accounts w w"
  unfolding accounts_iff by (intro exI [of _ "[]"]) simp

lemma accounts_trans:
  assumes "accounts w w1" and "accounts w1 w2"
  shows "accounts w w2"
proof -
  from assms(1) obtain a where a: "sent w1 = sent w @ a"
      "stats w1 numUploadsOK = stats w numUploadsOK + word_of_nat (length (uploaded_sizes a))"
      "stats w1 totalUploadBytes =
          stats w totalUploadBytes + word_of_nat (sum_list (uploaded_sizes a))"
      "stats w1 lastUploadBytes =
          (if uploaded_sizes a = [] then stats w lastUploadBytes
           else word_of_nat (last (uploaded_sizes a)))"
    unfolding accounts_iff by blast
  from assms(2) obtain b where b: "sent w2 = sent w1 @ b"
      "stats w2 numUploadsOK = stats w1 numUploadsOK + word_of_nat (length (uploaded_sizes b))"
      "stats w2 totalUploadBytes =
          stats w1 totalUploadBytes + word_of_nat (sum_list (uploaded_sizes b))"
      "stats w2 lastUploadBytes =
          (if uploaded_sizes b = [] then stats w1 lastUploadBytes
           else word_of_nat (last (uploaded_sizes b)))"
    unfolding accounts_iff by blast
  show ?thesis
    unfolding accounts_iff
    using a b by (intro exI [of _ "a @ b"]) simp
qed

lemma upload_accounts: "accounts w (snd (snd (upload e u w)))"
proof -
  let ?w' = "snd (snd (upload e u w))"
  from upload_cases [of e u w]
  consider (uncounted) "stats ?w' = stats w \<or> stats ?w' = stats_Add numUploadsSkipped 1 (stats w)"
      "sent ?w' = sent w"
    | (failed) got err where "stats ?w' = stats_Add numUploadsFail 1 (stats w)"
      "sent ?w' = sent w @ [(got, Some err)]"
    | (ok) got where
      "stats ?w' = stats_Set lastUploadBytes (word_of_nat (length got))
          (stats_Add totalUploadBytes (word_of_nat (length got))
            (stats_Add numUploadsOK 1 (stats w)))"
      "sent ?w' = sent w @ [(got, None)]"
    by blast
  then show ?thesis
  proof cases
    case uncounted
    then show ?thesis
      unfolding accounts_iff by (intro exI [of _ "[]"]) (auto simp: stats_Add_def)
  next
    case failed
    then show ?thesis
      unfolding accounts_iff by (intro exI [of _ "[(got, Some err)]"]) (simp add: stats_Add_def)
  next
    case ok
    then show ?thesis
      unfolding accounts_iff
      by (intro exI [of _ "[(got, None)]"]) (simp add: stats_Add_def stats_Set_def)
  qed
qed

lemma cycles_accounts: "accounts w (snd (cycles e n u w))"
proof (induction n arbitrary: u w)
  case 0
  show ?case by (simp add: accounts_refl)
next
  case (Suc n)
  obtain r u' w' where up: "upload e u w = (r, u', w')" by (cases "upload e u w") auto
  from upload_accounts [of w e u] up have "accounts w w'" by simp
  from accounts_trans [OF this Suc.IH [of w' u']] up show ?case by simp
qed

lemma increments_same: "stats w' = stats w \<Longrightarrow> increments w w' = 0"
  by (simp add: increments_def)

section \<open>The loop of \<open>Start\<close>\<close>



section \<open>The claims\<close>

text \<open>
  Claim C1. In a cycle that stages its file (temporary file created, provider and
  compression step succeeded), computes the digest of the staged, possibly compressed
  file, has the sum check enabled and finds the digest equal to \<open>lastSum\<close>:
  \<open>upload\<close> returns \<open>nil\<close>, \<open>num_uploads_skipped\<close> has grown by exactly 1, and the
  storage service has seen no call of \<open>Upload\<close> (its history is the one before the
  cycle).
\<close>

theorem C1_unchanged_content_is_skipped:
  assumes "tempFilename e w = (Inr f, w1)"
      and "Provide u f w1 = (None, w2)"
      and "compressIfNeeded e u f w2 = (None, w3)"
      and "FileSHA256 e f w3 = (Inr sm, w4)"
      and "\<not> disableSumCheck u"
      and "Equals sm (lastSum u)"
  shows "fst (upload e u w) = None \<and>
         stats (snd (snd (upload e u w))) numUploadsSkipped = stats w numUploadsSkipped + 1 \<and>
         sent (snd (snd (upload e u w))) = sent w"
  using staged_frame [OF assms(1-4)]
  by (simp add: upload_skipped [OF assms] stats_Add_def)

theorem C1_witness:
  "fst (upload env0 (u0\<lparr>lastSum := Some [3, 2, 1]\<rparr>) w0) = None \<and>
   stats (snd (snd (upload env0 (u0\<lparr>lastSum := Some [3, 2, 1]\<rparr>) w0))) numUploadsSkipped = 1 \<and>
   sent (snd (snd (upload env0 (u0\<lparr>lastSum := Some [3, 2, 1]\<rparr>) w0))) = []"
  using C1_unchanged_content_is_skipped [OF sample_skip_steps sample_skip_condition]
  by (simp add: w0_def ResetStats_def stats_Add_def)




text \<open>
  Claim C3. A cycle that gets past the sum check, opens the staged file and whose call
  of \<open>Upload\<close> returns \<open>nil\<close>: \<open>upload\<close> returns \<open>nil\<close>; \<open>lastSum\<close> is the digest
  computed in this cycle; \<open>num_uploads_ok\<close> has grown by exactly 1;
  \<open>total_upload_bytes\<close> has grown by exactly \<open>cr.count\<close>, the count of the counting
  reader after the call, and \<open>last_upload_bytes\<close> is that count; the other two
  counters are unchanged; \<open>lastUploadTime\<close> is the clock reading taken after the call
  and \<open>lastUploadDuration\<close> the next reading minus \<open>startTime\<close>. The count is the
  number of bytes the call read, which is the size of the entry the storage history
  gained. Consequently (second conjunct, \<open>accounts\<close>), after any \<open>n\<close> cycles from any
  state, with \<open>b1, ..., bN\<close> the sizes of the successful uploads among them:
  \<open>num_uploads_ok\<close> has grown by \<open>N\<close>, \<open>total_upload_bytes\<close> by \<open>b1 + ... + bN\<close>, and
  \<open>last_upload_bytes\<close> is \<open>bN\<close> (all in \<open>int64\<close> arithmetic, as \<open>expvar.Int\<close> adds).
\<close>

theorem C3_successful_transmission:
  "(tempFilename e w = (Inr f, w1) \<and> Provide u f w1 = (None, w2) \<and>
    compressIfNeeded e u f w2 = (None, w3) \<and> FileSHA256 e f w3 = (Inr sm, w4) \<and>
    (disableSumCheck u \<or> \<not> Equals sm (lastSum u)) \<and>
    os_Open e f w4 = (Inr fd, w5) \<and> time_Now e w5 = (startTime, w6) \<and>
    Upload u \<lparr>reader = File_reader w5 fd, count = 0\<rparr> w6 = ((None, cr'), w7) \<and>
    upload e u w = (r, u', w') \<longrightarrow>
      r = None \<and>
      u' = u\<lparr>lastSum := sm, lastUploadTime := clock e (calls w7),
             lastUploadDuration := clock e (Suc (calls w7)) - startTime\<rparr> \<and>
      lastSum u' = sm \<and>
      stats w' numUploadsOK = stats w numUploadsOK + 1 \<and>
      stats w' totalUploadBytes = stats w totalUploadBytes + count cr' \<and>
      stats w' lastUploadBytes = count cr' \<and>
      stats w' numUploadsFail = stats w numUploadsFail \<and>
      stats w' numUploadsSkipped = stats w numUploadsSkipped \<and>
      (\<exists>got. sent w' = sent w @ [(got, None)] \<and> count cr' = word_of_nat (length got))) \<and>
   accounts v (snd (cycles e n x v))"
proof (intro conjI impI)
  assume a: "tempFilename e w = (Inr f, w1) \<and> Provide u f w1 = (None, w2) \<and>
    compressIfNeeded e u f w2 = (None, w3) \<and> FileSHA256 e f w3 = (Inr sm, w4) \<and>
    (disableSumCheck u \<or> \<not> Equals sm (lastSum u)) \<and>
    os_Open e f w4 = (Inr fd, w5) \<and> time_Now e w5 = (startTime, w6) \<and>
    Upload u \<lparr>reader = File_reader w5 fd, count = 0\<rparr> w6 = ((None, cr'), w7) \<and>
    upload e u w = (r, u', w')"
  then have h: "tempFilename e w = (Inr f, w1)" "Provide u f w1 = (None, w2)"
    "compressIfNeeded e u f w2 = (None, w3)" "FileSHA256 e f w3 = (Inr sm, w4)"
    "disableSumCheck u \<or> \<not> Equals sm (lastSum u)"
    "os_Open e f w4 = (Inr fd, w5)" "time_Now e w5 = (startTime, w6)"
    "Upload u \<lparr>reader = File_reader w5 fd, count = 0\<rparr> w6 = ((None, cr'), w7)"
    and up: "upload e u w = (r, u', w')" by simp_all
  from upload_Upload_ok [OF h] up
  have r: "r = None"
    and u': "u' = u\<lparr>lastSum := sm, lastUploadTime := clock e (calls w7),
             lastUploadDuration := clock e (Suc (calls w7)) - startTime\<rparr>"
    and w': "w' = defer_os_Remove e f (answered (answered (w7\<lparr>stats :=
              stats_Set lastUploadBytes (count cr')
                (stats_Add totalUploadBytes (count cr')
                  (stats_Add numUploadsOK 1 (stats w7)))\<rparr>)))"
    by simp_all
  from h(7) have w6: "w6 = answered w5" by (simp add: time_Now_def)
  from Upload_File [OF h(8)] obtain got
    where w7: "w7 = answered (w6\<lparr>sent := sent w6 @ [(got, None)]\<rparr>)"
      and cnt: "count cr' = word_of_nat (length got)" by auto
  from w6 os_Open_frame [OF h(6)] staged_frame [OF h(1-4)]
  have fr: "stats w6 = stats w" "sent w6 = sent w" by simp_all
  show "r = None" by (rule r)
  show "u' = u\<lparr>lastSum := sm, lastUploadTime := clock e (calls w7),
             lastUploadDuration := clock e (Suc (calls w7)) - startTime\<rparr>" by (rule u')
  show "lastSum u' = sm" by (simp add: u')
  show "stats w' numUploadsOK = stats w numUploadsOK + 1"
    "stats w' totalUploadBytes = stats w totalUploadBytes + count cr'"
    "stats w' lastUploadBytes = count cr'"
    "stats w' numUploadsFail = stats w numUploadsFail"
    "stats w' numUploadsSkipped = stats w numUploadsSkipped"
    by (simp_all add: w' w7 fr stats_Add_def stats_Set_def)
  show "\<exists>got. sent w' = sent w @ [(got, None)] \<and> count cr' = word_of_nat (length got)"
    by (intro exI [of _ got]) (simp add: w' w7 fr cnt)
next
  show "accounts v (snd (cycles e n x v))" by (rule cycles_accounts)
qed

theorem C3_witness:
  "fst (upload env0 u0 w0) = None \<and>
   lastSum (fst (snd (upload env0 u0 w0))) = Some [3, 2, 1] \<and>
   stats (snd (snd (upload env0 u0 w0))) numUploadsOK = 1 \<and>
   stats (snd (snd (upload env0 u0 w0))) totalUploadBytes = 3 \<and>
   stats (snd (snd (upload env0 u0 w0))) lastUploadBytes = 3 \<and>
   uploaded_sizes (sent (snd (cycles env0 2 u_changing w0))) = [3, 5] \<and>
   stats (snd (cycles env0 2 u_changing w0)) numUploadsOK = 2 \<and>
   stats (snd (cycles env0 2 u_changing w0)) totalUploadBytes = 3 + 5 \<and>
   stats (snd (cycles env0 2 u_changing w0)) lastUploadBytes = 5"
proof -
  note c3 = C3_successful_transmission [of env0 w0 "''rqlite-upload1''" _ u0 _ _ "Some [3, 2, 1]"
      _ "''rqlite-upload1''" _ 1004 _ _ _ None _ _ w0 2 u_changing]
  note one = c3 [THEN conjunct1, rule_format, OF conjI [OF sample_skip_steps(1)
      conjI [OF sample_ok_steps(1) conjI [OF sample_ok_steps(2) conjI [OF sample_skip_steps(4)
      conjI [OF sample_ok_steps(3) conjI [OF sample_refused_steps(4)
      conjI [OF sample_refused_steps(5) conjI [OF sample_ok_steps(4) sample_ok_cycle]]]]]]]]]
  note many = c3 [THEN conjunct2]
  have new: "new_uploads w0 (snd (cycles env0 2 u_changing w0)) =
      [([1, 2, 3], None), ([4, 5, 6, 7, 8], None)]"
  proof -
    have "sent w0 = []" by (simp add: w0_def)
    then show ?thesis by (simp add: new_uploads_def sample_two_uploads)
  qed
  have z: "stats w0 numUploadsOK = 0" "stats w0 totalUploadBytes = 0"
    by (simp_all add: w0_def ResetStats_def stats_Add_def)
  have sz: "uploaded_sizes [([1, 2, 3], None), ([4, 5, 6, 7, 8 :: byte], None :: error option)] = [3, 5]"
    by (simp add: uploaded_sizes_def)
  from many [unfolded accounts_def new sz] have
    "stats (snd (cycles env0 2 u_changing w0)) numUploadsOK = 2"
    "stats (snd (cycles env0 2 u_changing w0)) totalUploadBytes = 3 + 5"
    "stats (snd (cycles env0 2 u_changing w0)) lastUploadBytes = 5"
    by (simp_all add: z)
  moreover from one have
    "stats (snd (snd (upload env0 u0 w0))) numUploadsOK = 1"
    "stats (snd (snd (upload env0 u0 w0))) totalUploadBytes = 3"
    "stats (snd (snd (upload env0 u0 w0))) lastUploadBytes = 3"
    "lastSum (fst (snd (upload env0 u0 w0))) = Some [3, 2, 1]"
    by (simp_all add: sample_ok_cycle z)
  ultimately show ?thesis
    by (simp add: sample_ok_cycle sample_two_uploads sz)
qed

text \<open>
  Claim C4, as amended. The claim says the three counters together grow by exactly 1
  whenever the digest has been computed. The code has one more return after that
  point: when the sum check does not skip the cycle and \<open>os.Open(filetoUpload)\<close>
  fails, \<open>upload\<close> returns the error before any \<open>stats.Add\<close>. What holds: the sum
  of the increments applied to \<open>num_uploads_ok\<close>, \<open>num_uploads_fail\<close> and
  \<open>num_uploads_skipped\<close> is exactly 1 if the cycle is skipped by the sum check or
  opens the staged file (and so calls \<open>Upload\<close>), and exactly 0, with no entry of
  \<open>stats\<close> touched, if the cycle fails before: at the creation of the temporary file,
  in the provider, in the compression step, in the digest, or at the opening of the
  staged file.
\<close>

theorem C4_counted_at_most_once:
  assumes "upload e u w = (r, u', w')"
  shows
    "(\<forall>err w1. tempFilename e w = (Inl err, w1) \<longrightarrow> stats w' = stats w \<and> increments w w' = 0) \<and>
     (\<forall>f w1 err w2. tempFilename e w = (Inr f, w1) \<and> Provide u f w1 = (Some err, w2) \<longrightarrow>
        stats w' = stats w \<and> increments w w' = 0) \<and>
     (\<forall>f w1 w2 err w3. tempFilename e w = (Inr f, w1) \<and> Provide u f w1 = (None, w2) \<and>
        compressIfNeeded e u f w2 = (Some err, w3) \<longrightarrow>
        stats w' = stats w \<and> increments w w' = 0) \<and>
     (\<forall>f w1 w2 w3 err w4. tempFilename e w = (Inr f, w1) \<and> Provide u f w1 = (None, w2) \<and>
        compressIfNeeded e u f w2 = (None, w3) \<and> FileSHA256 e f w3 = (Inl err, w4) \<longrightarrow>
        stats w' = stats w \<and> increments w w' = 0) \<and>
     (\<forall>f w1 w2 w3 sm w4. tempFilename e w = (Inr f, w1) \<and> Provide u f w1 = (None, w2) \<and>
        compressIfNeeded e u f w2 = (None, w3) \<and> FileSHA256 e f w3 = (Inr sm, w4) \<and>
        \<not> disableSumCheck u \<and> Equals sm (lastSum u) \<longrightarrow>
        increments w w' = 1) \<and>
     (\<forall>f w1 w2 w3 sm w4 err w5. tempFilename e w = (Inr f, w1) \<and> Provide u f w1 = (None, w2) \<and>
        compressIfNeeded e u f w2 = (None, w3) \<and> FileSHA256 e f w3 = (Inr sm, w4) \<and>
        (disableSumCheck u \<or> \<not> Equals sm (lastSum u)) \<and> os_Open e f w4 = (Inl err, w5) \<longrightarrow>
        stats w' = stats w \<and> increments w w' = 0) \<and>
     (\<forall>f w1 w2 w3 sm w4 fd w5. tempFilename e w = (Inr f, w1) \<and> Provide u f w1 = (None, w2) \<and>
        compressIfNeeded e u f w2 = (None, w3) \<and> FileSHA256 e f w3 = (Inr sm, w4) \<and>
        (disableSumCheck u \<or> \<not> Equals sm (lastSum u)) \<and> os_Open e f w4 = (Inr fd, w5) \<longrightarrow>
        increments w w' = 1)"
proof (intro conjI allI impI; (elim conjE)?)
  fix err w1 assume "tempFilename e w = (Inl err, w1)"
  from upload_tempFilename_failed [OF this] tempFilename_frame [OF this] assms
  show "stats w' = stats w" by simp
  then show "increments w w' = 0" by (rule increments_same)
next
  fix f w1 err w2
  assume h: "tempFilename e w = (Inr f, w1)" "Provide u f w1 = (Some err, w2)"
  from upload_Provide_failed [OF h] tempFilename_frame [OF h(1)] Provide_frame [OF h(2)] assms
  show "stats w' = stats w" by simp
  then show "increments w w' = 0" by (rule increments_same)
next
  fix f w1 w2 err w3
  assume h: "tempFilename e w = (Inr f, w1)" "Provide u f w1 = (None, w2)"
    "compressIfNeeded e u f w2 = (Some err, w3)"
  from upload_compress_failed [OF h] tempFilename_frame [OF h(1)] Provide_frame [OF h(2)]
    compressIfNeeded_frame [OF h(3)] assms
  show "stats w' = stats w" by simp
  then show "increments w w' = 0" by (rule increments_same)
next
  fix f w1 w2 w3 err w4
  assume h: "tempFilename e w = (Inr f, w1)" "Provide u f w1 = (None, w2)"
    "compressIfNeeded e u f w2 = (None, w3)" "FileSHA256 e f w3 = (Inl err, w4)"
  from upload_FileSHA256_failed [OF h] tempFilename_frame [OF h(1)] Provide_frame [OF h(2)]
    compressIfNeeded_frame [OF h(3)] FileSHA256_frame [OF h(4)] assms
  show "stats w' = stats w" by simp
  then show "increments w w' = 0" by (rule increments_same)
next
  fix f w1 w2 w3 sm w4
  assume h: "tempFilename e w = (Inr f, w1)" "Provide u f w1 = (None, w2)"
    "compressIfNeeded e u f w2 = (None, w3)" "FileSHA256 e f w3 = (Inr sm, w4)"
    "\<not> disableSumCheck u" "Equals sm (lastSum u)"
  from upload_skipped [OF h] staged_frame [OF h(1-4)] assms
  show "increments w w' = 1" by (simp add: increments_def stats_Add_def)
next
  fix f w1 w2 w3 sm w4 err w5
  assume h: "tempFilename e w = (Inr f, w1)" "Provide u f w1 = (None, w2)"
    "compressIfNeeded e u f w2 = (None, w3)" "FileSHA256 e f w3 = (Inr sm, w4)"
    "disableSumCheck u \<or> \<not> Equals sm (lastSum u)" "os_Open e f w4 = (Inl err, w5)"
  from upload_Open_failed [OF h] staged_frame [OF h(1-4)] os_Open_frame [OF h(6)] assms
  show "stats w' = stats w" by simp
  then show "increments w w' = 0" by (rule increments_same)
next
  fix f w1 w2 w3 sm w4 fd w5
  assume h: "tempFilename e w = (Inr f, w1)" "Provide u f w1 = (None, w2)"
    "compressIfNeeded e u f w2 = (None, w3)" "FileSHA256 e f w3 = (Inr sm, w4)"
    "disableSumCheck u \<or> \<not> Equals sm (lastSum u)" "os_Open e f w4 = (Inr fd, w5)"
  from upload_transmitted [OF h] assms
  show "increments w w' = 1"
    by (cases r) (auto simp: increments_def stats_Add_def stats_Set_def)
qed

text \<open>
  The claim as stated fails: in this cycle the digest is computed, the sum check does
  not skip (\<open>lastSum\<close> is \<open>nil\<close>), \<open>os.Open\<close> fails, and no counter moves.
\<close>

theorem C4_counterexample:
  "tempFilename (env_fault 3) w0 =
     (Inr ''rqlite-upload1'', w0\<lparr>files := [''rqlite-upload1'' \<mapsto> []], calls := 1\<rparr>) \<and>
   Provide u0 ''rqlite-upload1'' (w0\<lparr>files := [''rqlite-upload1'' \<mapsto> []], calls := 1\<rparr>) =
     (None, w0\<lparr>files := [''rqlite-upload1'' \<mapsto> [1, 2, 3]], calls := 2\<rparr>) \<and>
   compressIfNeeded (env_fault 3) u0 ''rqlite-upload1''
     (w0\<lparr>files := [''rqlite-upload1'' \<mapsto> [1, 2, 3]], calls := 2\<rparr>) =
     (None, w0\<lparr>files := [''rqlite-upload1'' \<mapsto> [1, 2, 3]], calls := 2\<rparr>) \<and>
   FileSHA256 (env_fault 3) ''rqlite-upload1''
     (w0\<lparr>files := [''rqlite-upload1'' \<mapsto> [1, 2, 3]], calls := 2\<rparr>) =
     (Inr (Some [3, 2, 1]), w0\<lparr>files := [''rqlite-upload1'' \<mapsto> [1, 2, 3]], calls := 3\<rparr>) \<and>
   upload (env_fault 3) u0 w0 = (Some (IOError ''disk''), u0, w0\<lparr>calls := 5\<rparr>) \<and>
   increments w0 (w0\<lparr>calls := 5\<rparr>) = 0 \<and>
   increments w0 (w0\<lparr>calls := 5\<rparr>) \<noteq> 1"
proof -
  have "increments w0 (w0\<lparr>calls := 5\<rparr>) = 0" by (simp add: increments_def)
  with sample_fault_steps(3) sample_ok_steps(1) sample_fault_steps(9,10) sample_open_fails
  show ?thesis by simp
qed

theorem C4_witness:
  "increments w0 (snd (snd (upload (env_fault 0) u0 w0))) = 0 \<and>
   increments w0 (snd (snd (upload env0 (u0\<lparr>dataProvider := provider_fails\<rparr>) w0))) = 0 \<and>
   increments w0 (snd (snd (upload (env_fault 2) (u0\<lparr>compress := True\<rparr>) w0))) = 0 \<and>
   increments w0 (snd (snd (upload (env_fault 2) u0 w0))) = 0 \<and>
   increments w0 (snd (snd (upload env0 (u0\<lparr>lastSum := Some [3, 2, 1]\<rparr>) w0))) = 1 \<and>
   increments w0 (snd (snd (upload (env_fault 3) u0 w0))) = 0 \<and>
   increments w0 (snd (snd (upload env0 u0 w0))) = 1"
proof -
  have up: "\<And>e u w. upload e u w = (fst (upload e u w), fst (snd (upload e u w)), snd (snd (upload e u w)))"
    by simp
  note c1 = C4_counted_at_most_once [OF up, THEN conjunct1, rule_format]
  note c2 = C4_counted_at_most_once [OF up, THEN conjunct2, THEN conjunct1, rule_format]
  note c3 = C4_counted_at_most_once [OF up, THEN conjunct2, THEN conjunct2, THEN conjunct1,
      rule_format]
  note c4 = C4_counted_at_most_once [OF up, THEN conjunct2, THEN conjunct2, THEN conjunct2,
      THEN conjunct1, rule_format]
  note c5 = C4_counted_at_most_once [OF up, THEN conjunct2, THEN conjunct2, THEN conjunct2,
      THEN conjunct2, THEN conjunct1, rule_format]
  note c6 = C4_counted_at_most_once [OF up, THEN conjunct2, THEN conjunct2, THEN conjunct2,
      THEN conjunct2, THEN conjunct2, THEN conjunct1, rule_format]
  note c7 = C4_counted_at_most_once [OF up, THEN conjunct2, THEN conjunct2, THEN conjunct2,
      THEN conjunct2, THEN conjunct2, THEN conjunct2, rule_format]
  from c1 [OF sample_fault_steps(1)]
  have 1: "increments w0 (snd (snd (upload (env_fault 0) u0 w0))) = 0" by simp
  from c2 [OF conjI [OF sample_skip_steps(1) sample_fault_steps(4)]]
  have 2: "increments w0 (snd (snd (upload env0 (u0\<lparr>dataProvider := provider_fails\<rparr>) w0))) = 0"
    by simp
  from c3 [OF conjI [OF sample_fault_steps(2) conjI [OF sample_fault_steps(5) sample_fault_steps(6)]]]
  have 3: "increments w0 (snd (snd (upload (env_fault 2) (u0\<lparr>compress := True\<rparr>) w0))) = 0"
    by simp
  from c4 [OF conjI [OF sample_fault_steps(2) conjI [OF sample_ok_steps(1)
      conjI [OF sample_fault_steps(7) sample_fault_steps(8)]]]]
  have 4: "increments w0 (snd (snd (upload (env_fault 2) u0 w0))) = 0" by simp
  from c5 [OF conjI [OF sample_skip_steps(1) conjI [OF sample_skip_steps(2)
      conjI [OF sample_skip_steps(3) conjI [OF sample_skip_steps(4)
      conjI [OF sample_skip_condition]]]]]]
  have 5: "increments w0 (snd (snd (upload env0 (u0\<lparr>lastSum := Some [3, 2, 1]\<rparr>) w0))) = 1" .
  from c6 [OF conjI [OF sample_fault_steps(3) conjI [OF sample_ok_steps(1)
      conjI [OF sample_fault_steps(9) conjI [OF sample_fault_steps(10)
      conjI [OF sample_ok_steps(3) sample_fault_steps(11)]]]]]]
  have 6: "increments w0 (snd (snd (upload (env_fault 3) u0 w0))) = 0" by simp
  from c7 [OF conjI [OF sample_skip_steps(1) conjI [OF sample_ok_steps(1)
      conjI [OF sample_ok_steps(2) conjI [OF sample_skip_steps(4)
      conjI [OF sample_ok_steps(3) sample_refused_steps(4)]]]]]]
  have 7: "increments w0 (snd (snd (upload env0 u0 w0))) = 1" .
  from 1 2 3 4 5 6 7 show ?thesis by simp
qed




lemma sample_compress:
  "compressIfNeeded env0 u0 ''snapshot'' w_snapshot = (None, w_snapshot)"
  "compressIfNeeded (env_fault 3) (u0\<lparr>compress := True\<rparr>) ''snapshot'' w_snapshot =
     (Some (IOError ''disk''), w_snapshot\<lparr>calls := 5\<rparr>)"
  "compressIfNeeded env0 (u0\<lparr>compress := True\<rparr>) ''snapshot'' w_snapshot =
     (None, w_snapshot\<lparr>files := [''snapshot'' \<mapsto> [31, 1, 2, 3]], calls := 7\<rparr>)"
  by (simp_all add: sample_defs step_defs w_snapshot_def env_fault_def fun_eq_iff)


text \<open>
  Claim C6. The compression step \<open>compressIfNeeded\<close> on a path: with compression
  disabled it returns \<open>nil\<close> and leaves the world as it is. With compression enabled,
  whenever it returns an error the content \<open>c\<close> originally at the source path is
  still there, and so is every other file that existed; the only file that can be
  new is the temporary output, in case its deferred removal failed (if that removal
  is not answered with an error the file system is exactly the one before the call).
  When it returns \<open>nil\<close> on an existing source file, the path holds the compressed
  form of that content, the temporary output is gone, and none of the six fallible
  steps (creating the temporary file, opening the source, creating the output,
  copying, closing the compressor, renaming) was answered with an error: a failure of
  any of them makes the step return an error.
\<close>

theorem C6_compression_step:
  "(\<not> compress u \<longrightarrow> compressIfNeeded e u p w = (None, w)) \<and>
   (compress u \<and> fst (compressIfNeeded e u p w) \<noteq> None \<and> files w p = Some c \<longrightarrow>
      files (snd (compressIfNeeded e u p w)) p = Some c \<and>
      (\<forall>q. files w q \<noteq> None \<longrightarrow> files (snd (compressIfNeeded e u p w)) q = files w q) \<and>
      (os_fault e (calls (snd (compressIfNeeded e u p w)) - 1) = None \<longrightarrow>
         files (snd (compressIfNeeded e u p w)) = files w)) \<and>
   (compress u \<and> fst (compressIfNeeded e u p w) = None \<and> files w p = Some c \<longrightarrow>
      files (snd (compressIfNeeded e u p w)) = (files w)(p \<mapsto> gzip e c) \<and>
      (\<forall>i<6. os_fault e (calls w + i) = None))"
proof (intro conjI impI)
  assume "\<not> compress u"
  then show "compressIfNeeded e u p w = (None, w)" by (simp add: compressIfNeeded_def)
next
  assume a: "compress u \<and> fst (compressIfNeeded e u p w) \<noteq> None \<and> files w p = Some c"
  then obtain err w' where r: "compressIfNeeded e u p w = (Some err, w')"
    by (cases "compressIfNeeded e u p w") auto
  from compressIfNeeded_failed [OF r]
  have kept: "\<forall>q. files w q \<noteq> None \<longrightarrow> files w' q = files w q"
    and clean: "os_fault e (calls w' - 1) = None \<longrightarrow> files w' = files w"
    by auto
  from kept r
  show "\<forall>q. files w q \<noteq> None \<longrightarrow> files (snd (compressIfNeeded e u p w)) q = files w q"
    by simp
  from kept a r show "files (snd (compressIfNeeded e u p w)) p = Some c" by simp
  show "files (snd (compressIfNeeded e u p w)) = files w"
    if "os_fault e (calls (snd (compressIfNeeded e u p w)) - 1) = None"
    using that clean r by simp
next
  assume a: "compress u \<and> fst (compressIfNeeded e u p w) = None \<and> files w p = Some c"
  then obtain w' where r: "compressIfNeeded e u p w = (None, w')"
    by (cases "compressIfNeeded e u p w") auto
  from a have "compress u" "files w p = Some c" by auto
  from compressIfNeeded_ok [OF this(1) r this(2)] r
  show "files (snd (compressIfNeeded e u p w)) = (files w)(p \<mapsto> gzip e c)"
    and "\<forall>i<6. os_fault e (calls w + i) = None" by simp_all
qed

theorem C6_witness:
  "compressIfNeeded env0 u0 ''snapshot'' w_snapshot = (None, w_snapshot) \<and>
   fst (compressIfNeeded (env_fault 3) (u0\<lparr>compress := True\<rparr>) ''snapshot'' w_snapshot) =
     Some (IOError ''disk'') \<and>
   files (snd (compressIfNeeded (env_fault 3) (u0\<lparr>compress := True\<rparr>) ''snapshot'' w_snapshot))
     ''snapshot'' = Some [1, 2, 3] \<and>
   fst (compressIfNeeded env0 (u0\<lparr>compress := True\<rparr>) ''snapshot'' w_snapshot) = None \<and>
   files (snd (compressIfNeeded env0 (u0\<lparr>compress := True\<rparr>) ''snapshot'' w_snapshot)) =
     [''snapshot'' \<mapsto> gzip env0 [1, 2, 3]]"
proof -
  have u: "\<not> compress u0" "compress (u0\<lparr>compress := True\<rparr>)"
    by (simp_all add: u0_def NewUploader_def)
  have f: "files w_snapshot ''snapshot'' = Some [1, 2, 3]"
    "files w_snapshot = [''snapshot'' \<mapsto> [1, 2, 3]]"
    by (simp_all add: w_snapshot_def)
  from C6_compression_step [of u0 env0 "''snapshot''" w_snapshot] u
  have 1: "compressIfNeeded env0 u0 ''snapshot'' w_snapshot = (None, w_snapshot)" by simp
  from C6_compression_step [of "u0\<lparr>compress := True\<rparr>" "env_fault 3" "''snapshot''" w_snapshot]
    u sample_compress(2) f
  have 2: "files (snd (compressIfNeeded (env_fault 3) (u0\<lparr>compress := True\<rparr>) ''snapshot'' w_snapshot))
     ''snapshot'' = Some [1, 2, 3]" by simp
  from C6_compression_step [of "u0\<lparr>compress := True\<rparr>" env0 "''snapshot''" w_snapshot "[1, 2, 3]"]
    u sample_compress(3) f
  have 3: "files (snd (compressIfNeeded env0 (u0\<lparr>compress := True\<rparr>) ''snapshot'' w_snapshot)) =
     [''snapshot'' \<mapsto> gzip env0 [1, 2, 3]]" by simp
  from 1 2 3 sample_compress(2,3) show ?thesis by simp
qed

text \<open>
  Claim C7, as amended. The claim says the staging file is gone when the cycle
  returns. The code runs \<open>defer os.Remove(filetoUpload)\<close> and drops the error of the
  removal, so the file stays when the removal itself fails. What holds: once the
  staging file of a cycle has been created, every return of \<open>upload\<close> -- after a
  provider, compression, digest or open failure, after a skipped cycle, after a failed
  or successful transmission -- is the return of the rest of the function followed by
  exactly one call of \<open>os.Remove\<close> on the staging file, as the last interaction of
  the cycle. If that call is not answered with an error, no file of that name is left,
  whatever the rest of the function left there; if it is, the cycle returns the same
  result and the files are as the rest of the function left them.
\<close>

theorem C7_staged_file_removal:
  assumes "tempFilename e w = (Inr f, w1)"
  shows "upload e u w =
           (fst (upload_deferred e u f w1), fst (snd (upload_deferred e u f w1)),
            defer_os_Remove e f (snd (snd (upload_deferred e u f w1)))) \<and>
         calls (snd (snd (upload e u w))) = Suc (calls (snd (snd (upload_deferred e u f w1)))) \<and>
         (os_fault e (calls (snd (snd (upload e u w))) - 1) = None \<longrightarrow>
            files (snd (snd (upload e u w))) f = None) \<and>
         (os_fault e (calls (snd (snd (upload e u w))) - 1) \<noteq> None \<longrightarrow>
            files (snd (snd (upload e u w))) = files (snd (snd (upload_deferred e u f w1))))"
proof -
  have eq: "upload e u w =
           (fst (upload_deferred e u f w1), fst (snd (upload_deferred e u f w1)),
            defer_os_Remove e f (snd (snd (upload_deferred e u f w1))))"
    by (simp add: upload_def assms split: prod.splits)
  then show ?thesis by simp
qed

text \<open>
  The claim as stated fails: in this cycle everything succeeds, the upload included,
  except the deferred removal (the ninth interaction); \<open>upload\<close> returns \<open>nil\<close> and
  the staged file is still there.
\<close>

theorem C7_counterexample:
  "tempFilename (env_fault 8) w0 =
     (Inr ''rqlite-upload1'', w0\<lparr>files := [''rqlite-upload1'' \<mapsto> []], calls := 1\<rparr>) \<and>
   fst (upload (env_fault 8) u0 w0) = None \<and>
   sent (snd (snd (upload (env_fault 8) u0 w0))) = [([1, 2, 3], None)] \<and>
   files (snd (snd (upload (env_fault 8) u0 w0))) ''rqlite-upload1'' = Some [1, 2, 3]"
  by (simp add: upload_def upload_deferred_def env_fault_def sample_defs step_defs)

theorem C7_witness:
  "files (snd (snd (upload_deferred env0 u0 ''rqlite-upload1''
      (w0\<lparr>files := [''rqlite-upload1'' \<mapsto> []], calls := 1\<rparr>)))) ''rqlite-upload1'' = Some [1, 2, 3] \<and>
   files (snd (snd (upload env0 u0 w0))) ''rqlite-upload1'' = None \<and>
   files (snd (snd (upload env0 (u0\<lparr>dataProvider := provider_fails\<rparr>) w0))) ''rqlite-upload1'' = None \<and>
   files (snd (snd (upload (env_fault 8) u0 w0))) =
     files (snd (snd (upload_deferred (env_fault 8) u0 ''rqlite-upload1''
       (w0\<lparr>files := [''rqlite-upload1'' \<mapsto> []], calls := 1\<rparr>))))"
proof -
  have left: "files (snd (snd (upload_deferred env0 u0 ''rqlite-upload1''
      (w0\<lparr>files := [''rqlite-upload1'' \<mapsto> []], calls := 1\<rparr>)))) ''rqlite-upload1'' = Some [1, 2, 3]"
    by (simp add: upload_deferred_def sample_defs step_defs)
  have idx: "calls (snd (snd (upload env0 u0 w0))) - 1 = 8"
    "calls (snd (snd (upload env0 (u0\<lparr>dataProvider := provider_fails\<rparr>) w0))) - 1 = 2"
    "calls (snd (snd (upload (env_fault 8) u0 w0))) - 1 = 8"
    by (simp_all add: upload_def upload_deferred_def env_fault_def sample_defs step_defs)
  have flt: "os_fault env0 8 = None" "os_fault env0 2 = None" "os_fault (env_fault 8) 8 \<noteq> None"
    by (simp_all add: env0_def env_fault_def)
  note a = C7_staged_file_removal [OF sample_skip_steps(1), of u0]
  note b = C7_staged_file_removal [OF sample_skip_steps(1), of "u0\<lparr>dataProvider := provider_fails\<rparr>"]
  note c = C7_staged_file_removal [OF sample_fault_steps(12), of u0]
  from a [THEN conjunct2, THEN conjunct2, THEN conjunct1, unfolded idx(1), rule_format, OF flt(1)]
  have 1: "files (snd (snd (upload env0 u0 w0))) ''rqlite-upload1'' = None" .
  from b [THEN conjunct2, THEN conjunct2, THEN conjunct1, unfolded idx(2), rule_format, OF flt(2)]
  have 2: "files (snd (snd (upload env0 (u0\<lparr>dataProvider := provider_fails\<rparr>) w0)))
      ''rqlite-upload1'' = None" .
  from c [THEN conjunct2, THEN conjunct2, THEN conjunct2, unfolded idx(3), rule_format, OF flt(3)]
  have 3: "files (snd (snd (upload (env_fault 8) u0 w0))) =
     files (snd (snd (upload_deferred (env_fault 8) u0 ''rqlite-upload1''
       (w0\<lparr>files := [''rqlite-upload1'' \<mapsto> []], calls := 1\<rparr>))))" .
  from left 1 2 3 show ?thesis by simp
qed

lemma reads_five_bytes:
  "fst (reads five_bytes [[0, 0], [0, 0], [0, 0], [0, 0]]) =
     [([1, 2], 2, None), ([3, 4], 2, None), ([5, 0], 1, None), ([0, 0], 0, Some EOF)]"
  by (simp add: five_bytes_def call_Read_def File_Read_def)

text \<open>
  Claim C8. For every wrapped reader (any \<open>Read\<close> method on any state) and every
  sequence of buffers handed to \<open>countingReader.Read\<close>: the answers (buffer contents,
  \<open>n\<close>, \<open>err\<close>) are exactly the ones the wrapped reader gives to the same calls, the
  wrapped reader ends in the same state, and \<open>count\<close> has grown by the sum of the
  returned \<open>n\<close>, added as \<open>c.count += int64(n)\<close> adds them. For a fresh wrapper
  (\<open>count = 0\<close>) whose sum fits an \<open>int64\<close>, \<open>count\<close> read as a signed number is
  that sum.
\<close>

theorem C8_countingReader:
  "fst (counting_reads c ps) = fst (reads (reader c) ps) \<and>
   reader (snd (counting_reads c ps)) = snd (reads (reader c) ps) \<and>
   count (snd (counting_reads c ps)) =
     count c + word_of_int (bytes_returned (fst (reads (reader c) ps))) \<and>
   (count c = 0 \<and> - (2 ^ 63) \<le> bytes_returned (fst (reads (reader c) ps)) \<and>
    bytes_returned (fst (reads (reader c) ps)) < 2 ^ 63 \<longrightarrow>
      sint (count (snd (counting_reads c ps))) = bytes_returned (fst (reads (reader c) ps)))"
  by (simp add: counting_reads_reads sint_word_of_int_in_range)

theorem C8_witness:
  "fst (counting_reads \<lparr>reader = five_bytes, count = 0\<rparr> [[0, 0], [0, 0], [0, 0], [0, 0]]) =
     [([1, 2], 2, None), ([3, 4], 2, None), ([5, 0], 1, None), ([0, 0], 0, Some EOF)] \<and>
   sint (count (snd (counting_reads \<lparr>reader = five_bytes, count = 0\<rparr>
     [[0, 0], [0, 0], [0, 0], [0, 0]]))) = 5"
  using C8_countingReader [of "\<lparr>reader = five_bytes, count = 0\<rparr>" "[[0, 0], [0, 0], [0, 0], [0, 0]]"]
  by (simp add: reads_five_bytes bytes_returned_def del: reads.simps counting_reads.simps)

text \<open>
  Claim C9. A cycle skipped by the sum check (same conditions as in C1) changes nothing
  of the service but \<open>num_uploads_skipped\<close>: the \<open>Uploader\<close> is the one before the cycle,
  so \<open>lastSum\<close>, \<open>lastUploadTime\<close> and \<open>lastUploadDuration\<close> keep their values, and
  \<open>num_uploads_ok\<close>, \<open>num_uploads_fail\<close>, \<open>total_upload_bytes\<close> and
  \<open>last_upload_bytes\<close> keep theirs.
\<close>

theorem C9_skipped_cycle_frame:
  assumes "tempFilename e w = (Inr f, w1)"
      and "Provide u f w1 = (None, w2)"
      and "compressIfNeeded e u f w2 = (None, w3)"
      and "FileSHA256 e f w3 = (Inr sm, w4)"
      and "\<not> disableSumCheck u"
      and "Equals sm (lastSum u)"
  shows "fst (snd (upload e u w)) = u \<and>
         lastSum (fst (snd (upload e u w))) = lastSum u \<and>
         lastUploadTime (fst (snd (upload e u w))) = lastUploadTime u \<and>
         lastUploadDuration (fst (snd (upload e u w))) = lastUploadDuration u \<and>
         stats (snd (snd (upload e u w))) numUploadsOK = stats w numUploadsOK \<and>
         stats (snd (snd (upload e u w))) numUploadsFail = stats w numUploadsFail \<and>
         stats (snd (snd (upload e u w))) totalUploadBytes = stats w totalUploadBytes \<and>
         stats (snd (snd (upload e u w))) lastUploadBytes = stats w lastUploadBytes \<and>
         stats (snd (snd (upload e u w))) =
           (stats w)(numUploadsSkipped := stats w numUploadsSkipped + 1)"
  using staged_frame [OF assms(1-4)]
  by (simp add: upload_skipped [OF assms] stats_Add_def)

theorem C9_witness:
  "fst (snd (upload env0 (u0\<lparr>lastSum := Some [3, 2, 1]\<rparr>) w0)) = u0\<lparr>lastSum := Some [3, 2, 1]\<rparr> \<and>
   stats (snd (snd (upload env0 (u0\<lparr>lastSum := Some [3, 2, 1]\<rparr>) w0))) =
     (stats w0)(numUploadsSkipped := stats w0 numUploadsSkipped + 1)"
  using C9_skipped_cycle_frame [OF sample_skip_steps sample_skip_condition]
  by simp

text \<open>
  Claim C10, as amended. The counters are \<open>expvar.Int\<close>, an \<open>int64\<close> whose \<open>Add\<close>
  wraps around, so a counter at the largest \<open>int64\<close> becomes negative when it is
  incremented. What holds: a call of \<open>upload\<close> leaves \<open>num_uploads_ok\<close>,
  \<open>num_uploads_fail\<close>, \<open>num_uploads_skipped\<close> and \<open>total_upload_bytes\<close>, read as
  signed numbers, greater than or equal to their values before, provided none of them
  overflows in the cycle: each of the three outcome counters is below \<open>2^63 - 1\<close>
  before the cycle, and \<open>total_upload_bytes\<close> plus the number of bytes the cycle
  uploads (the size of the entry the storage history gains, if any) stays below
  \<open>2^63\<close>.
\<close>

theorem C10_counters_do_not_decrease:
  assumes "upload e u w = (r, u', w')"
      and "sint (stats w numUploadsOK) < 2 ^ 63 - 1"
      and "sint (stats w numUploadsFail) < 2 ^ 63 - 1"
      and "sint (stats w numUploadsSkipped) < 2 ^ 63 - 1"
      and "\<forall>(bs, x) \<in> set (new_uploads w w'). sint (stats w totalUploadBytes) + int (length bs) < 2 ^ 63"
  shows "sint (stats w numUploadsOK) \<le> sint (stats w' numUploadsOK) \<and>
         sint (stats w numUploadsFail) \<le> sint (stats w' numUploadsFail) \<and>
         sint (stats w numUploadsSkipped) \<le> sint (stats w' numUploadsSkipped) \<and>
         sint (stats w totalUploadBytes) \<le> sint (stats w' totalUploadBytes)"
proof -
  from upload_cases [of e u w] assms(1)
  consider (same) "stats w' = stats w"
    | (skipped) "stats w' = stats_Add numUploadsSkipped 1 (stats w)"
    | (failed) "stats w' = stats_Add numUploadsFail 1 (stats w)"
    | (ok) got where
      "stats w' = stats_Set lastUploadBytes (word_of_nat (length got))
          (stats_Add totalUploadBytes (word_of_nat (length got))
            (stats_Add numUploadsOK 1 (stats w)))"
      "sent w' = sent w @ [(got, None)]"
    by auto
  then show ?thesis
  proof cases
    case same
    then show ?thesis by simp
  next
    case skipped
    with sint_add_one [OF assms(4)] show ?thesis by (simp add: stats_Add_def)
  next
    case failed
    with sint_add_one [OF assms(3)] show ?thesis by (simp add: stats_Add_def)
  next
    case ok
    from ok(2) have "new_uploads w w' = [(got, None)]" by (simp add: new_uploads_def)
    with assms(5) have "sint (stats w totalUploadBytes) + int (length got) < 2 ^ 63" by simp
    from sint_add_of_nat [OF this] sint_add_one [OF assms(2)] ok(1)
    show ?thesis by (simp add: stats_Add_def stats_Set_def)
  qed
qed

text \<open>
  The claim as stated fails: a skipped cycle in a world whose \<open>num_uploads_skipped\<close>
  is \<open>9223372036854775807\<close> leaves it at \<open>-9223372036854775808\<close>.
\<close>

theorem C10_counterexample:
  "upload env0 u_uploaded w_full =
     (None, u_uploaded,
      w_full\<lparr>stats := (stats w_full)(numUploadsSkipped := 9223372036854775808), calls := 4\<rparr>) \<and>
   sint (stats w_full numUploadsSkipped) = 9223372036854775807 \<and>
   sint (stats (w_full\<lparr>stats := (stats w_full)(numUploadsSkipped := 9223372036854775808),
     calls := 4\<rparr>) numUploadsSkipped) = - 9223372036854775808 \<and>
   sint (stats (w_full\<lparr>stats := (stats w_full)(numUploadsSkipped := 9223372036854775808),
     calls := 4\<rparr>) numUploadsSkipped) < sint (stats w_full numUploadsSkipped)"
  using sample_wraps by (simp add: w_full_def)

theorem C10_witness:
  "sint (stats w0 numUploadsOK) \<le> sint (stats (snd (snd (upload env0 u0 w0))) numUploadsOK) \<and>
   sint (stats w0 numUploadsFail) \<le> sint (stats (snd (snd (upload env0 u0 w0))) numUploadsFail) \<and>
   sint (stats w0 numUploadsSkipped) \<le> sint (stats (snd (snd (upload env0 u0 w0))) numUploadsSkipped) \<and>
   sint (stats w0 totalUploadBytes) \<le> sint (stats (snd (snd (upload env0 u0 w0))) totalUploadBytes) \<and>
   sint (stats w0 totalUploadBytes) = 0 \<and>
   sint (stats (snd (snd (upload env0 u0 w0))) totalUploadBytes) = 3"
proof -
  have z: "stats w0 numUploadsOK = 0" "stats w0 numUploadsFail = 0"
    "stats w0 numUploadsSkipped = 0" "stats w0 totalUploadBytes = 0" "sent w0 = []"
    by (simp_all add: w0_def ResetStats_def stats_Add_def)
  have new: "new_uploads w0 (w0\<lparr>stats := (stats w0)(numUploadsOK := 1, totalUploadBytes := 3,
         lastUploadBytes := 3), sent := [([1, 2, 3], None)], calls := 9\<rparr>) = [([1, 2, 3], None)]"
    by (simp add: new_uploads_def z)
  have h: "sint (stats w0 numUploadsOK) < 2 ^ 63 - 1" "sint (stats w0 numUploadsFail) < 2 ^ 63 - 1"
    "sint (stats w0 numUploadsSkipped) < 2 ^ 63 - 1"
    "\<forall>(bs, x) \<in> set (new_uploads w0 (w0\<lparr>stats := (stats w0)(numUploadsOK := 1,
         totalUploadBytes := 3, lastUploadBytes := 3), sent := [([1, 2, 3], None)], calls := 9\<rparr>)).
       sint (stats w0 totalUploadBytes) + int (length bs) < 2 ^ 63"
    by (simp_all add: z new)
  from C10_counters_do_not_decrease [OF sample_ok_cycle h] show ?thesis
    by (simp add: sample_ok_cycle z)
qed

end
